theory Spec2Isabelle
  imports Complex_Main "HOL-Library.Signed_Division" "HOL-Library.AList"
begin

section \<open>Errors\<close>

text \<open>
  The sources throw two kinds of exception objects: \<^verbatim>\<open>BeaconChainGeneralApiError\<close>
  (a message and an optional \<^verbatim>\<open>$httpCode\<close>) and the built-in \<^verbatim>\<open>Error\<close>
  (a message). Dividing a \<^verbatim>\<open>bigint\<close> by \<^verbatim>\<open>0n\<close> throws the built-in
  \<^verbatim>\<open>RangeError\<close>.
\<close>

datatype error =
    BeaconChainGeneralApiError string "nat option"
  | Error string
  | RangeError

section \<open>EpochScheduler: \<^verbatim>\<open>InspectorService.calculateNextFinalizedSlot\<close>\<close>

record scheduler =
  FETCH_INTERVAL_SLOTS :: int
  START_SLOT :: int
  latestSlotInDb :: int

text \<open>The starting point: the later of the latest stored slot and the configured floor.\<close>

definition startingSlot :: "scheduler \<Rightarrow> int" where
  "startingSlot c =
     (if latestSlotInDb c \<ge> START_SLOT c then latestSlotInDb c else START_SLOT c)"

text \<open>
  \<^verbatim>\<open>epoch * step + (step - 1n)\<close> with \<^verbatim>\<open>epoch = startingSlot / step\<close>; the
  quotient of two \<^verbatim>\<open>bigint\<close>s truncates towards zero, which is \<open>sdiv\<close>.
\<close>

definition latestSlotInEpoch :: "int \<Rightarrow> int \<Rightarrow> int" where
  "latestSlotInEpoch step s = (s sdiv step) * step + (step - 1)"

definition calculateNextFinalizedSlot :: "scheduler \<Rightarrow> error + int" where
  "calculateNextFinalizedSlot c =
     (let step = FETCH_INTERVAL_SLOTS c;
          s = startingSlot c
      in if step = 0 then Inl RangeError
         else Inr (if latestSlotInEpoch step s = s
                   then latestSlotInEpoch step s + step
                   else latestSlotInEpoch step s))"


section \<open>SummaryAggregator: \<^verbatim>\<open>SummaryService\<close>\<close>

subsection \<open>Objects\<close>

text \<open>
  A summary is a plain JavaScript object, and \<^verbatim>\<open>set\<close> hands it to lodash's generic
  \<^verbatim>\<open>merge\<close>, which looks at which keys are present and at what their values are.
  Values are therefore modelled as a tree: the primitives occurring in
  \<^verbatim>\<open>ValidatorDutySummary\<close> and \<^verbatim>\<open>EpochMeta\<close>, arrays, plain objects (their own
  enumerable keys in insertion order) and \<^verbatim>\<open>Map\<close> objects. A key can be present
  with the value \<^verbatim>\<open>undefined\<close>, which differs from an absent key.
\<close>

datatype jsval =
    Undefined
  | Null
  | Bool bool
  | BigInt int
  | Number rat
  | Str string
  | Array "jsval list"
  | Object "(string \<times> jsval) list"
  | MapObject "(int \<times> int) list"

type_synonym obj = "(string \<times> jsval) list"

text \<open>Reading a property, \<^verbatim>\<open>o[k]\<close>: an absent key reads as \<^verbatim>\<open>undefined\<close>.\<close>

definition getProp :: "obj \<Rightarrow> string \<Rightarrow> jsval" where
  "getProp ob k = (case map_of ob k of None \<Rightarrow> Undefined | Some v \<Rightarrow> v)"

subsection \<open>lodash \<^verbatim>\<open>merge\<close>\<close>

text \<open>
  \<^verbatim>\<open>merge\<close> is imported from lodash. Its documented behaviour: it recursively merges
  the enumerable properties of the source into the destination; source properties that
  resolve to \<^verbatim>\<open>undefined\<close> are skipped if a destination value exists; array and
  plain object properties are merged recursively; other objects and other value types are
  overridden by assignment. The functions below follow lodash's \<^verbatim>\<open>assignMergeValue\<close>,
  \<^verbatim>\<open>baseMergeDeep\<close> and \<^verbatim>\<open>baseMerge\<close>, on values instead of references.

  \<^verbatim>\<open>assignMergeValue(object, key, value)\<close> assigns when the value is defined, or when it
  is \<^verbatim>\<open>undefined\<close> and the key is not yet in the object.
\<close>

definition assignMergeValue :: "obj \<Rightarrow> string \<Rightarrow> jsval \<Rightarrow> obj" where
  "assignMergeValue ob k v =
     (if v \<noteq> Undefined \<or> k \<notin> fst ` set ob then AList.update k v ob else ob)"

text \<open>
  \<^verbatim>\<open>baseMergeDeep\<close> computes the new value of one key from the destination's value
  \<open>objValue\<close> (\<^verbatim>\<open>undefined\<close> when the key is absent) and the source's value. A plain
  object source is merged into an object destination and into a fresh object otherwise;
  an array source is merged index by index into an array destination and into a fresh
  array otherwise; any other source value is assigned as it is. Where the destination holds
  an array or a \<^verbatim>\<open>Map\<close> and the source a plain object, lodash keeps the destination
  object and attaches the source's keys to it as extra properties, which the arrays and
  maps of this model do not carry; no field of the declared types has both shapes.
\<close>

fun baseMergeDeep :: "jsval \<Rightarrow> jsval \<Rightarrow> jsval"
  and baseMerge :: "obj \<Rightarrow> obj \<Rightarrow> obj"
  and baseMergeArray :: "jsval list \<Rightarrow> jsval list \<Rightarrow> jsval list"
where
  "baseMergeDeep objValue (Object sp) =
     (case objValue of
        Object dp \<Rightarrow> Object (baseMerge dp sp)
      | Array oa \<Rightarrow> Array oa
      | MapObject m \<Rightarrow> MapObject m
      | _ \<Rightarrow> Object (baseMerge [] sp))"
| "baseMergeDeep objValue (Array sa) =
     (case objValue of
        Array oa \<Rightarrow> Array (baseMergeArray oa sa)
      | _ \<Rightarrow> Array (baseMergeArray [] sa))"
| "baseMergeDeep objValue srcValue = srcValue"
| "baseMerge ob [] = ob"
| "baseMerge ob ((k, srcValue) # src) =
     baseMerge (assignMergeValue ob k (baseMergeDeep (getProp ob k) srcValue)) src"
| "baseMergeArray oa [] = oa"
| "baseMergeArray [] (srcValue # sa) =
     baseMergeDeep Undefined srcValue # baseMergeArray [] sa"
| "baseMergeArray (objValue # oa) (srcValue # sa) =
     (if srcValue = Undefined then objValue else baseMergeDeep objValue srcValue)
       # baseMergeArray oa sa"


subsection \<open>The service\<close>

text \<open>
  \<^verbatim>\<open>storage\<close> is a \<^verbatim>\<open>Map<ValidatorId, ValidatorDutySummary>\<close>, which iterates in
  insertion order and keeps the position of a key that is set again: an association list
  under \<open>AList.update\<close>. \<^verbatim>\<open>meta\<close> is \<open>None\<close> after \<^verbatim>\<open>clearMeta\<close> has deleted it.
\<close>

record summaryService =
  storage :: "(int \<times> obj) list"
  meta :: "obj option"

definition newSummaryService :: summaryService where
  "newSummaryService = \<lparr>storage = [], meta = Some []\<rparr>"



definition getMeta :: "summaryService \<Rightarrow> obj option" where
  "getMeta svc = meta svc"




definition values_summary :: "summaryService \<Rightarrow> obj list" where
  "values_summary svc = map snd (storage svc)"

text \<open>
  \<^verbatim>\<open>{ ...v, att_meta: undefined, sync_meta: undefined }\<close>: a new object with the
  properties of \<open>v\<close> in their order, in which the two keys are then set.
  \<^verbatim>\<open>valuesToWrite\<close> returns the list of these objects; the service is returned beside
  it, as the call leaves it.
\<close>

definition stripMeta :: "obj \<Rightarrow> obj" where
  "stripMeta v = AList.update ''sync_meta'' Undefined (AList.update ''att_meta'' Undefined v)"

definition valuesToWrite :: "summaryService \<Rightarrow> obj list \<times> summaryService" where
  "valuesToWrite svc = (map stripMeta (values_summary svc), svc)"

definition clear :: "summaryService \<Rightarrow> summaryService" where
  "clear svc = svc\<lparr>storage := []\<rparr>"

definition clearMeta :: "summaryService \<Rightarrow> summaryService" where
  "clearMeta svc = svc\<lparr>meta := None\<rparr>"

text \<open>A service holding one summary of validator 7, used to evaluate the operations.\<close>

definition svc0 :: summaryService where
  "svc0 = \<lparr>storage = [(7, [(''val_id'', BigInt 7), (''att_happened'', Bool True),
                            (''att_meta'', Object [(''included_in_block'', BigInt 41)])])],
          meta = Some [(''state'', Object [(''base_reward'', Number 5)])]\<rparr>"

section \<open>ChainClient: \<^verbatim>\<open>Eth2Client\<close>\<close>

subsection \<open>Headers, requests and the consensus-layer API\<close>

record ShortBeaconBlockHeader =
  slotNumber :: int
  stateRoot :: string
  blockRoot :: string
  parentRoot :: string

text \<open>
  A header is asked for by slot number or by a string (a block root, \<^verbatim>\<open>finalized\<close>,
  \<^verbatim>\<open>head\<close>): the parameter \<^verbatim>\<open>state: bigint | string\<close>.
\<close>

datatype stateId = Slot int | Root string

text \<open>
  The state of the client that matters here is the sequence of HTTP requests it has issued,
  each an RPC URL and the header asked for. The API is a parameter: \<open>beacon env t url st\<close>
  is the outcome of asking \<open>url\<close> for \<open>st\<close> as the request number \<open>t\<close>, either the header
  or the error \<^verbatim>\<open>apiGet\<close> throws. Answers may change from one request to the next.
  \<^verbatim>\<open>rpcUrls.backup\<close> is the empty string when no backup URL is configured.
\<close>

type_synonym requestLog = "(string \<times> stateId) list"

record environment =
  ETH2_BEACON_RPC_URL :: string
  ETH2_BEACON_RPC_URL_BACKUP :: string
  beacon :: "nat \<Rightarrow> string \<Rightarrow> stateId \<Rightarrow> error + ShortBeaconBlockHeader"

text \<open>\<^verbatim>\<open>e.$httpCode\<close>, which only a \<^verbatim>\<open>BeaconChainGeneralApiError\<close> may carry.\<close>

definition httpCode :: "error \<Rightarrow> nat option" where
  "httpCode e = (case e of BeaconChainGeneralApiError msg c \<Rightarrow> c | _ \<Rightarrow> None)"

definition apiGet :: "environment \<Rightarrow> string \<Rightarrow> stateId \<Rightarrow> requestLog
    \<Rightarrow> (error + ShortBeaconBlockHeader) \<times> requestLog" where
  "apiGet env rpcUrl st lg = (beacon env (length lg) rpcUrl st, lg @ [(rpcUrl, st)])"

subsection \<open>Retry and fallback\<close>

text \<open>
  Modelled from the spec: the helper \<^verbatim>\<open>retrier\<close> (imported from
  \<^verbatim>\<open>common/functions/retrier\<close>) is not among the sources. The spec says of it: wait a
  fixed delay and retry up to N times with bounded backoff. \<open>retrier n callback\<close> runs the
  callback until it succeeds, at most \<open>n\<close> times and at least once, and fails with the
  error of the last attempt. Delays are not modelled.
\<close>

fun retrier :: "nat \<Rightarrow> ('s \<Rightarrow> (error + 'a) \<times> 's) \<Rightarrow> 's \<Rightarrow> (error + 'a) \<times> 's" where
  "retrier 0 callback s = callback s"
| "retrier (Suc n) callback s =
     (case callback s of
        (Inr res, s') \<Rightarrow> (Inr res, s')
      | (Inl e, s') \<Rightarrow> if n = 0 then (Inl e, s') else retrier n callback s')"

record RequestRetryOptions =
  maxRetries :: "nat option"
  dataOnly :: "bool option"
  fallbackConditionCallback :: "(error \<Rightarrow> bool) option"

text \<open>
  \<^verbatim>\<open>retryRequest\<close>: one call of the callback on the main URL; if it fails,
  \<^verbatim>\<open>rejectDelay\<close> waits and fails again, and the next handler, which ignores that first
  error, runs the retrier on the main URL; if that fails with \<open>e\<close>, the last handler asks
  \<^verbatim>\<open>fallbackConditionCallback(e)\<close>, and then either runs the retrier on the backup URL,
  or throws \<open>e\<close> when there is none. The response is returned as it is (\<^verbatim>\<open>dataOnly\<close>
  selects its \<^verbatim>\<open>data\<close> part, which is what the API parameter yields).
\<close>

definition retryRequest :: "environment
    \<Rightarrow> (string \<Rightarrow> requestLog \<Rightarrow> (error + 'a) \<times> requestLog)
    \<Rightarrow> RequestRetryOptions \<Rightarrow> requestLog \<Rightarrow> (error + 'a) \<times> requestLog" where
  "retryRequest env callback options lg =
     (let maxRetries' = (case maxRetries options of None \<Rightarrow> 5 | Some n \<Rightarrow> n);
          fallbackConditionCallback' =
            (case fallbackConditionCallback options of None \<Rightarrow> (\<lambda>e. True) | Some f \<Rightarrow> f)
      in case callback (ETH2_BEACON_RPC_URL env) lg of
           (Inr res, lg1) \<Rightarrow> (Inr res, lg1)
         | (Inl e0, lg1) \<Rightarrow>
             (case retrier maxRetries' (callback (ETH2_BEACON_RPC_URL env)) lg1 of
                (Inr res, lg2) \<Rightarrow> (Inr res, lg2)
              | (Inl e, lg2) \<Rightarrow>
                  if fallbackConditionCallback' e then
                    (if ETH2_BEACON_RPC_URL_BACKUP env = [] then (Inl e, lg2)
                     else retrier maxRetries' (callback (ETH2_BEACON_RPC_URL_BACKUP env)) lg2)
                  else (Inl e, lg2)))"

definition getBeaconBlockHeader :: "environment \<Rightarrow> stateId \<Rightarrow> nat \<Rightarrow> requestLog
    \<Rightarrow> (error + ShortBeaconBlockHeader) \<times> requestLog" where
  "getBeaconBlockHeader env st maxRetries' lg =
     retryRequest env (\<lambda>rpcURL. apiGet env rpcURL st)
       \<lparr>maxRetries = Some maxRetries', dataOnly = None,
        fallbackConditionCallback = Some (\<lambda>e. Some 404 \<noteq> httpCode e)\<rparr> lg"

subsection \<open>Searching for a header that is not missed\<close>

text \<open>
  Both searches call themselves with \<^verbatim>\<open>maxDeep - 1\<close> after a 404 and rethrow the
  caught error once \<^verbatim>\<open>maxDeep < 1\<close>. Headers are fetched with the default
  \<^verbatim>\<open>maxRetries = 3\<close>.
\<close>

function getNextNotMissedBlockHeader :: "environment \<Rightarrow> int \<Rightarrow> int \<Rightarrow> requestLog
    \<Rightarrow> (error + ShortBeaconBlockHeader) \<times> requestLog" where
  "getNextNotMissedBlockHeader env slot maxDeep lg =
     (case getBeaconBlockHeader env (Slot slot) 3 lg of
        (Inr h, lg') \<Rightarrow> (Inr h, lg')
      | (Inl e, lg') \<Rightarrow>
          if Some 404 \<noteq> httpCode e then (Inl e, lg')
          else if maxDeep < 1 then (Inl e, lg')
          else getNextNotMissedBlockHeader env (slot + 1) (maxDeep - 1) lg')"
  by pat_completeness auto
termination
  by (relation "measure (\<lambda>(env, slot, maxDeep, lg). nat maxDeep)") auto

function getPreviousNotMissedBlockHeader :: "environment \<Rightarrow> int \<Rightarrow> int \<Rightarrow> requestLog
    \<Rightarrow> (error + ShortBeaconBlockHeader) \<times> requestLog" where
  "getPreviousNotMissedBlockHeader env slot maxDeep lg =
     (case getBeaconBlockHeader env (Slot slot) 3 lg of
        (Inr h, lg') \<Rightarrow> (Inr h, lg')
      | (Inl e, lg') \<Rightarrow>
          if Some 404 \<noteq> httpCode e then (Inl e, lg')
          else if maxDeep < 1 then (Inl e, lg')
          else getPreviousNotMissedBlockHeader env (slot - 1) (maxDeep - 1) lg')"
  by pat_completeness auto
termination
  by (relation "measure (\<lambda>(env, slot, maxDeep, lg). nat maxDeep)") auto

subsection \<open>The missed-slot check\<close>

text \<open>
  \<^verbatim>\<open>checkSlotIsMissed\<close> follows \<^verbatim>\<open>parentRoot\<close> for as long as the API serves
  headers above the slot asked for; nothing in the code bounds the walk, so the result is
  an option and \<open>None\<close> stands for a walk that never ends.
\<close>

partial_function (option) checkSlotIsMissed :: "environment \<Rightarrow> int \<Rightarrow> ShortBeaconBlockHeader
    \<Rightarrow> requestLog \<Rightarrow> ((error + bool \<times> ShortBeaconBlockHeader) \<times> requestLog) option" where
  "checkSlotIsMissed env slotNumber' someNextBlock lg =
     (if slotNumber' > slotNumber someNextBlock
        then Some (Inl (Error ''Next block is greater than probably missing block''), lg)
      else if slotNumber' = slotNumber someNextBlock
        then Some (Inr (False, someNextBlock), lg)
      else case getBeaconBlockHeader env (Root (parentRoot someNextBlock)) 3 lg of
             (Inl e, lg') \<Rightarrow> Some (Inl e, lg')
           | (Inr blockHeader, lg') \<Rightarrow>
               if slotNumber' = slotNumber blockHeader
                 then Some (Inr (False, blockHeader), lg')
               else if slotNumber' > slotNumber blockHeader
                 then Some (Inr (True, blockHeader), lg')
               else checkSlotIsMissed env slotNumber' blockHeader lg')"

text \<open>
  The header reached from \<open>h\<close> by \<open>n\<close> fetches of the parent, as the API serves them from
  the request log \<open>lg\<close> on; a failed fetch ends the walk with its error. This names the
  ancestors that the statements about \<^verbatim>\<open>checkSlotIsMissed\<close> speak of.
\<close>

fun ancestor :: "environment \<Rightarrow> nat \<Rightarrow> ShortBeaconBlockHeader \<Rightarrow> requestLog
    \<Rightarrow> (error + ShortBeaconBlockHeader) \<times> requestLog" where
  "ancestor env 0 h lg = (Inr h, lg)"
| "ancestor env (Suc n) h lg =
     (case getBeaconBlockHeader env (Root (parentRoot h)) 3 lg of
        (Inl e, lg') \<Rightarrow> (Inl e, lg')
      | (Inr h', lg') \<Rightarrow> ancestor env n h' lg')"

text \<open>
  \<^verbatim>\<open>getBeaconBlockHeaderOrPreviousIfMissed\<close>: the header of the slot, or after a 404
  the result of the missed-slot check against the next header that is not missed.
\<close>

definition getBeaconBlockHeaderOrPreviousIfMissed :: "environment \<Rightarrow> int \<Rightarrow> requestLog
    \<Rightarrow> ((error + ShortBeaconBlockHeader \<times> bool) \<times> requestLog) option" where
  "getBeaconBlockHeaderOrPreviousIfMissed env slot lg =
     (case getBeaconBlockHeader env (Slot slot) 3 lg of
        (Inr h, lg') \<Rightarrow> Some (Inr (h, False), lg')
      | (Inl e, lg') \<Rightarrow>
          if Some 404 \<noteq> httpCode e then Some (Inl e, lg')
          else case getNextNotMissedBlockHeader env slot 32 lg' of
                 (Inl e', lg'') \<Rightarrow> Some (Inl e', lg'')
               | (Inr someNotMissedNextBlock, lg'') \<Rightarrow>
                   (case checkSlotIsMissed env slot someNotMissedNextBlock lg'' of
                      None \<Rightarrow> None
                    | Some (Inl e', lg3) \<Rightarrow> Some (Inl e', lg3)
                    | Some (Inr (isMissed, notMissedPreviousBlock), lg3) \<Rightarrow>
                        Some (Inr (notMissedPreviousBlock, isMissed), lg3)))"

text \<open>
  Two APIs used to evaluate the client. \<open>env404\<close> answers every request with a 404 and
  has a backup URL. \<open>envDown\<close> has a main URL that answers every request with a 503 and a
  backup URL that serves a header for every request.
\<close>

definition notFound :: error where
  "notFound = BeaconChainGeneralApiError ''Not Found'' (Some 404)"

definition unavailable :: error where
  "unavailable = BeaconChainGeneralApiError ''Service Unavailable'' (Some 503)"

definition env404 :: environment where
  "env404 = \<lparr>ETH2_BEACON_RPC_URL = ''main'', ETH2_BEACON_RPC_URL_BACKUP = ''backup'',
             beacon = (\<lambda>t url st. Inl notFound)\<rparr>"

definition header40 :: ShortBeaconBlockHeader where
  "header40 = \<lparr>slotNumber = 40, stateRoot = ''s40'', blockRoot = ''b40'', parentRoot = ''b39''\<rparr>"

definition envDown :: environment where
  "envDown = \<lparr>ETH2_BEACON_RPC_URL = ''main'', ETH2_BEACON_RPC_URL_BACKUP = ''backup'',
              beacon = (\<lambda>t url st. if url = ''main'' then Inl unavailable else Inr header40)\<rparr>"

text \<open>
  A chain in which slot 40 was missed: the header of slot 42 has the header of slot 41 as
  its parent, whose parent is the header of slot 39. \<open>envChain\<close> serves the three headers
  by slot and by root and answers 404 for anything else.
\<close>

definition header39 :: ShortBeaconBlockHeader where
  "header39 = \<lparr>slotNumber = 39, stateRoot = ''s39'', blockRoot = ''b39'', parentRoot = ''b38''\<rparr>"

definition header41 :: ShortBeaconBlockHeader where
  "header41 = \<lparr>slotNumber = 41, stateRoot = ''s41'', blockRoot = ''b41'', parentRoot = ''b39''\<rparr>"

definition header42 :: ShortBeaconBlockHeader where
  "header42 = \<lparr>slotNumber = 42, stateRoot = ''s42'', blockRoot = ''b42'', parentRoot = ''b41''\<rparr>"

definition envChain :: environment where
  "envChain = \<lparr>ETH2_BEACON_RPC_URL = ''main'', ETH2_BEACON_RPC_URL_BACKUP = [],
     beacon = (\<lambda>t url st.
       if st = Slot 39 \<or> st = Root ''b39'' then Inr header39
       else if st = Slot 41 \<or> st = Root ''b41'' then Inr header41
       else if st = Slot 42 \<or> st = Root ''b42'' then Inr header42
       else Inl notFound)\<rparr>"

section \<open>DutyResolver: \<^verbatim>\<open>ClickhouseService.writeAttestations\<close>\<close>

text \<open>
  The duty list, the attestations found in the fetched blocks and the missed slots arrive
  as JSON strings of decimal numbers, which the code compares as strings or converts with
  \<^verbatim>\<open>BigInt\<close> and \<^verbatim>\<open>parseInt\<close>; they are integers here. \<^verbatim>\<open>a.slot\<close> is the
  field \<open>duty_slot\<close>. \<^verbatim>\<open>in_block\<close> is \<open>None\<close> while it is \<^verbatim>\<open>undefined\<close>.
\<close>

record AttesterDutyInfo =
  pubkey :: string
  validator_index :: string
  committee_index :: int
  committee_length :: int
  committees_at_slot :: int
  validator_committee_index :: int
  duty_slot :: int
  attested :: bool
  in_block :: "int option"

record SlotAttestation =
  bits :: "bool list"
  att_slot :: int
  att_committee_index :: int

text \<open>
  \<^verbatim>\<open>blocksAttestations\<close> is an object keyed by block slot; it is held as the list that
  \<^verbatim>\<open>Object.entries\<close> yields. \<^verbatim>\<open>chunkSize\<close> is \<^verbatim>\<open>DB_INSERT_CHUNK_SIZE\<close>, and
  \<open>insertChunk\<close> tells for a chunk of rows whether \<^verbatim>\<open>retry(ws.exec())\<close> ends with an
  error.
\<close>

record CheckAttestersDutyResult =
  attestersDutyInfo :: "AttesterDutyInfo list"
  blocksAttestations :: "(int \<times> SlotAttestation list) list"
  allMissedSlots :: "int list"

record clickhouseConfig =
  ATTESTATION_MAX_INCLUSION_IN_BLOCK_DELAY :: int
  chunkSize :: nat
  insertChunk :: "AttesterDutyInfo list \<Rightarrow> error option"

text \<open>
  \<^verbatim>\<open>bits[parseInt(a.validator_committee_index)]\<close>: outside the array the read is
  \<^verbatim>\<open>undefined\<close>, which the tests \<^verbatim>\<open>if (a.attested)\<close> and
  \<^verbatim>\<open>a.attested ? 1 : 0\<close> take as false.
\<close>

definition bitAt :: "bool list \<Rightarrow> int \<Rightarrow> bool" where
  "bitAt bs i = (if 0 \<le> i \<and> nat i < length bs then bs ! nat i else False)"

text \<open>
  \<^verbatim>\<open>blockAttestations.find(...)\<close>: the first attestation of the block for the duty's
  slot and committee.
\<close>

definition committeeAttestationInfo :: "AttesterDutyInfo \<Rightarrow> SlotAttestation list
    \<Rightarrow> SlotAttestation option" where
  "committeeAttestationInfo a blockAttestations =
     find (\<lambda>att. att_slot att = duty_slot a \<and> att_committee_index att = committee_index a)
       blockAttestations"

text \<open>The number of entries of \<^verbatim>\<open>allMissedSlots\<close> strictly between the two slots.\<close>

definition missedSlotsOffset :: "int list \<Rightarrow> AttesterDutyInfo \<Rightarrow> int \<Rightarrow> nat" where
  "missedSlotsOffset missedSlots a block =
     length (filter (\<lambda>missed. missed > duty_slot a \<and> missed < block) missedSlots)"

text \<open>
  The inner loop over the blocks, for one duty: \<^verbatim>\<open>continue\<close> goes on with the rest of
  the list, \<^verbatim>\<open>break\<close> returns.
\<close>

fun searchBlocks :: "int \<Rightarrow> int list \<Rightarrow> (int \<times> SlotAttestation list) list
    \<Rightarrow> AttesterDutyInfo \<Rightarrow> AttesterDutyInfo" where
  "searchBlocks maxDelay missedSlots [] a = a"
| "searchBlocks maxDelay missedSlots ((block, blockAttestations) # rest) a =
     (if duty_slot a \<ge> block then searchBlocks maxDelay missedSlots rest a
      else
        let a' = (case committeeAttestationInfo a blockAttestations of
                    None \<Rightarrow> a
                  | Some info \<Rightarrow>
                      a\<lparr>attested := bitAt (bits info) (validator_committee_index a),
                        in_block := Some block\<rparr>)
        in if attested a' then
             (if block - duty_slot a - int (missedSlotsOffset missedSlots a block) > maxDelay
              then a'\<lparr>attested := False\<rparr>
              else a')
           else searchBlocks maxDelay missedSlots rest a')"

text \<open>
  The body of the loop over a chunk, for one duty \<open>a\<close>: reset the two fields, search the
  blocks. The row written renders \<^verbatim>\<open>a.attested ? 1 : 0\<close> and \<^verbatim>\<open>a.in_block\<close> of the
  result, so the result stands for the row.
\<close>

definition checkDuty :: "clickhouseConfig \<Rightarrow> CheckAttestersDutyResult \<Rightarrow> AttesterDutyInfo
    \<Rightarrow> AttesterDutyInfo" where
  "checkDuty cfg attDutyResult a =
     searchBlocks (ATTESTATION_MAX_INCLUSION_IN_BLOCK_DELAY cfg) (allMissedSlots attDutyResult)
       (blocksAttestations attDutyResult) (a\<lparr>attested := False, in_block := None\<rparr>)"

text \<open>
  The loop over the chunks: \<^verbatim>\<open>splice(0, chunkSize)\<close> takes the next chunk off the duty
  list, its rows are written and inserted; an insert that fails throws. With a chunk size
  of zero the list never shrinks and the loop does not end, hence the option. The second
  component is the table \<^verbatim>\<open>stats.validator_attestations\<close>.
\<close>

partial_function (option) writeAttestationsLoop :: "clickhouseConfig \<Rightarrow> CheckAttestersDutyResult
    \<Rightarrow> AttesterDutyInfo list \<Rightarrow> AttesterDutyInfo list
    \<Rightarrow> ((error + unit) \<times> AttesterDutyInfo list) option" where
  "writeAttestationsLoop cfg attDutyResult duties tbl =
     (if length duties > 0 then
        (let chunk = take (chunkSize cfg) duties;
             rows = map (checkDuty cfg attDutyResult) chunk
         in case insertChunk cfg rows of
              Some e \<Rightarrow> Some (Inl e, tbl)
            | None \<Rightarrow> writeAttestationsLoop cfg attDutyResult (drop (chunkSize cfg) duties)
                       (tbl @ rows))
      else Some (Inr (), tbl))"

definition writeAttestations :: "clickhouseConfig \<Rightarrow> CheckAttestersDutyResult
    \<Rightarrow> AttesterDutyInfo list \<Rightarrow> ((error + unit) \<times> AttesterDutyInfo list) option" where
  "writeAttestations cfg attDutyResult tbl =
     writeAttestationsLoop cfg attDutyResult (attestersDutyInfo attDutyResult) tbl"

text \<open>
  Whether a block's attestations include the duty, as the loop decides it: the attestation
  that \<^verbatim>\<open>find\<close> returns has the bit of the validator's committee position set.
\<close>

definition marksValidator :: "AttesterDutyInfo \<Rightarrow> SlotAttestation list \<Rightarrow> bool" where
  "marksValidator a blockAttestations =
     (case committeeAttestationInfo a blockAttestations of
        None \<Rightarrow> False
      | Some info \<Rightarrow> bitAt (bits info) (validator_committee_index a))"

text \<open>
  Inputs used to evaluate the attestation check. In \<open>resultTwoAggregates\<close> the duty of
  slot 10 has block 11 as its only candidate, and the block carries two attestations of the
  duty's slot and committee: the first without, the second with the validator's bit. In
  \<open>resultMissed41\<close> the duty of slot 40 has block 42 as its only candidate, slot 41 being
  missed.
\<close>

definition cfgDelay2 :: clickhouseConfig where
  "cfgDelay2 = \<lparr>ATTESTATION_MAX_INCLUSION_IN_BLOCK_DELAY = 2, chunkSize = 1000,
                insertChunk = (\<lambda>rows. None)\<rparr>"

definition duty10 :: AttesterDutyInfo where
  "duty10 = \<lparr>pubkey = ''0xaa'', validator_index = ''5'', committee_index = 3,
             committee_length = 2, committees_at_slot = 4, validator_committee_index = 1,
             duty_slot = 10, attested = False, in_block = None\<rparr>"

definition aggregateWithout :: SlotAttestation where
  "aggregateWithout = \<lparr>bits = [True, False], att_slot = 10, att_committee_index = 3\<rparr>"

definition aggregateWith :: SlotAttestation where
  "aggregateWith = \<lparr>bits = [False, True], att_slot = 10, att_committee_index = 3\<rparr>"

definition resultTwoAggregates :: CheckAttestersDutyResult where
  "resultTwoAggregates = \<lparr>attestersDutyInfo = [duty10],
     blocksAttestations = [(11, [aggregateWithout, aggregateWith])], allMissedSlots = []\<rparr>"

definition duty40 :: AttesterDutyInfo where
  "duty40 = \<lparr>pubkey = ''0xbb'', validator_index = ''6'', committee_index = 0,
             committee_length = 2, committees_at_slot = 4, validator_committee_index = 0,
             duty_slot = 40, attested = False, in_block = None\<rparr>"

definition resultMissed41 :: CheckAttestersDutyResult where
  "resultMissed41 = \<lparr>attestersDutyInfo = [duty40],
     blocksAttestations = [(42, [\<lparr>bits = [True, False], att_slot = 40, att_committee_index = 0\<rparr>])],
     allMissedSlots = [41]\<rparr>"

section \<open>AlertEngine\<close>

subsection \<open>Numbers\<close>

text \<open>
  The rules divide and compare JavaScript numbers. A quotient with a zero divisor is
  \<^verbatim>\<open>NaN\<close> or an infinity, and every comparison with \<^verbatim>\<open>NaN\<close> is false. Finite
  values are rationals here: the rounding of doubles is not modelled. Reading a field
  that is \<^verbatim>\<open>undefined\<close> as a number gives \<^verbatim>\<open>NaN\<close>.
\<close>

datatype jsnumber = NaN | NegInfinity | Finite rat | PosInfinity

definition toNumber :: "rat option \<Rightarrow> jsnumber" where
  "toNumber v = (case v of None \<Rightarrow> NaN | Some x \<Rightarrow> Finite x)"

fun jsDivide :: "jsnumber \<Rightarrow> jsnumber \<Rightarrow> jsnumber" where
  "jsDivide NaN y = NaN"
| "jsDivide x NaN = NaN"
| "jsDivide (Finite x) (Finite y) =
     (if y \<noteq> 0 then Finite (x / y)
      else if x > 0 then PosInfinity else if x < 0 then NegInfinity else NaN)"
| "jsDivide (Finite x) y = Finite 0"
| "jsDivide PosInfinity (Finite y) = (if y < 0 then NegInfinity else PosInfinity)"
| "jsDivide NegInfinity (Finite y) = (if y < 0 then PosInfinity else NegInfinity)"
| "jsDivide x y = NaN"

fun jsGreater :: "jsnumber \<Rightarrow> jsnumber \<Rightarrow> bool" where
  "jsGreater NaN y = False"
| "jsGreater x NaN = False"
| "jsGreater (Finite x) (Finite y) = (x > y)"
| "jsGreater PosInfinity y = (y \<noteq> PosInfinity)"
| "jsGreater x NegInfinity = (x \<noteq> NegInfinity)"
| "jsGreater x y = False"

subsection \<open>Alerts that were sent\<close>

text \<open>
  \<^verbatim>\<open>AlertRuleResult\<close> maps an operator name to a payload of numbers
  (\<^verbatim>\<open>{ongoing, negDelta}\<close>, \<^verbatim>\<open>{all, missed}\<close>), in the order of
  \<^verbatim>\<open>Object.entries\<close>. \<^verbatim>\<open>sentAlerts\<close> maps an alert name to the
  \<^verbatim>\<open>PreparedToSendAlert\<close> recorded for it.
\<close>

type_synonym AlertRuleResult = "(string \<times> (string \<times> rat) list) list"

record AlertRequestBody =
  startsAt :: int
  endsAt :: int
  labels :: "(string \<times> string) list"
  annotations :: "(string \<times> string) list"

record PreparedToSendAlert =
  timestamp :: int
  body :: AlertRequestBody
  ruleResult :: AlertRuleResult

type_synonym SentAlerts = "string \<Rightarrow> PreparedToSendAlert option"

text \<open>\<^verbatim>\<open>sentAlerts[alertname]?.timestamp ?? 0\<close>\<close>

definition prevSendTimestamp :: "SentAlerts \<Rightarrow> string \<Rightarrow> int" where
  "prevSendTimestamp sentAlerts alertname =
     (case sentAlerts alertname of None \<Rightarrow> 0 | Some p \<Rightarrow> timestamp p)"

text \<open>\<^verbatim>\<open>sentAlerts[alertname]?.ruleResult[operator]?.field ?? 0\<close>\<close>

definition prevField :: "SentAlerts \<Rightarrow> string \<Rightarrow> string \<Rightarrow> string \<Rightarrow> rat" where
  "prevField sentAlerts alertname operator field =
     (case sentAlerts alertname of
        None \<Rightarrow> 0
      | Some p \<Rightarrow>
          (case map_of (ruleResult p) operator of
             None \<Rightarrow> 0
           | Some payload \<Rightarrow> (case map_of payload field of None \<Rightarrow> 0 | Some x \<Rightarrow> x)))"

subsection \<open>\<^verbatim>\<open>CriticalNegativeDelta.sendRule\<close>\<close>

text \<open>
  \<open>now\<close> is \<^verbatim>\<open>Date.now()\<close>, which the rule stores in \<^verbatim>\<open>sendTimestamp\<close>. The loop
  over the operators returns at the first one that got worse.
\<close>

fun negativeDeltaIncreased :: "SentAlerts \<Rightarrow> string \<Rightarrow> int \<Rightarrow> AlertRuleResult \<Rightarrow> bool" where
  "negativeDeltaIncreased sentAlerts alertname now [] = False"
| "negativeDeltaIncreased sentAlerts alertname now ((operator, operatorResult) # rest) =
     (let ifIncreasedInterval = 60 * 60 * 1000 in
      if jsGreater (toNumber (map_of operatorResult ''negDelta''))
           (Finite (prevField sentAlerts alertname operator ''negDelta''))
         \<and> now - prevSendTimestamp sentAlerts alertname > ifIncreasedInterval
      then True
      else negativeDeltaIncreased sentAlerts alertname now rest)"

definition CriticalNegativeDelta_sendRule :: "SentAlerts \<Rightarrow> string \<Rightarrow> int \<Rightarrow> AlertRuleResult
    \<Rightarrow> bool" where
  "CriticalNegativeDelta_sendRule sentAlerts alertname now result =
     (let defaultInterval = 6 * 60 * 60 * 1000 in
      if length result > 0 then
        (if now - prevSendTimestamp sentAlerts alertname > defaultInterval then True
         else negativeDeltaIncreased sentAlerts alertname now result)
      else False)"

subsection \<open>\<^verbatim>\<open>CriticalMissedProposes.sendRule\<close>\<close>

fun missedShareIncreased :: "SentAlerts \<Rightarrow> string \<Rightarrow> int \<Rightarrow> AlertRuleResult \<Rightarrow> bool" where
  "missedShareIncreased sentAlerts alertname now [] = False"
| "missedShareIncreased sentAlerts alertname now ((operator, operatorResult) # rest) =
     (let defaultInterval = 6 * 60 * 60 * 1000;
          prevAll = prevField sentAlerts alertname operator ''all'';
          prevMissed = prevField sentAlerts alertname operator ''missed''
      in if jsGreater
              (jsDivide (toNumber (map_of operatorResult ''missed''))
                        (toNumber (map_of operatorResult ''all'')))
              (jsDivide (Finite prevMissed) (Finite prevAll))
            \<and> now - prevSendTimestamp sentAlerts alertname > defaultInterval
         then True
         else missedShareIncreased sentAlerts alertname now rest)"

definition CriticalMissedProposes_sendRule :: "SentAlerts \<Rightarrow> string \<Rightarrow> int \<Rightarrow> AlertRuleResult
    \<Rightarrow> bool" where
  "CriticalMissedProposes_sendRule sentAlerts alertname now result =
     (if length result > 0 then missedShareIncreased sentAlerts alertname now result
      else False)"

subsection \<open>\<^verbatim>\<open>CriticalAlertsService\<close>\<close>

text \<open>
  An alert, as \<^verbatim>\<open>send\<close> uses it: its name and \<^verbatim>\<open>toSend(epoch)\<close>, which reads the
  alerts sent so far and yields the prepared alert, nothing (\<^verbatim>\<open>undefined\<close>), or throws.
  \<^verbatim>\<open>toSend\<close> lives in \<^verbatim>\<open>BasicAlert\<close>, which is not among the sources, so it is a
  parameter, as is the list of alerts (two of its four classes are not among the sources).
\<close>

record alert =
  alertname :: string
  toSend :: "int \<Rightarrow> SentAlerts \<Rightarrow> error + PreparedToSendAlert option"

text \<open>
  The service: the base URL, the age of the data (\<^verbatim>\<open>getSlotTimeDiffWithNow()\<close>), and
  the alert sink, \<open>delivery b\<close> telling whether the POST of \<open>b\<close> succeeds.
\<close>

record criticalAlertsService =
  baseUrl :: string
  slotTimeDiffWithNow :: int
  alerts :: "alert list"
  delivery :: "AlertRequestBody \<Rightarrow> bool"

text \<open>
  What a cycle changes: the alerts recorded as sent; the POST requests issued; the
  requests whose failure was logged; the names of the alerts whose \<^verbatim>\<open>toSend\<close> was
  called; and the lines logged by \<^verbatim>\<open>send\<close> itself.
\<close>

record alertState =
  sentAlerts :: SentAlerts
  posted :: "AlertRequestBody list"
  failedDeliveries :: "AlertRequestBody list"
  evaluated :: "string list"
  logged :: "string list"

text \<open>
  \<^verbatim>\<open>fire\<close> starts the POST and returns: the promise of the request is neither awaited
  nor returned, and its rejection is caught and logged. So \<^verbatim>\<open>fire\<close> itself never
  fails, whatever becomes of the request.
\<close>

definition fire :: "criticalAlertsService \<Rightarrow> AlertRequestBody \<Rightarrow> alertState \<Rightarrow> alertState" where
  "fire svc al st =
     st\<lparr>posted := posted st @ [al],
        failedDeliveries := (if delivery svc al then failedDeliveries st
                             else failedDeliveries st @ [al])\<rparr>"

text \<open>
  The loop of \<^verbatim>\<open>send\<close> inside its \<^verbatim>\<open>try\<close>: an exception of \<^verbatim>\<open>toSend\<close> leaves
  the loop; after \<^verbatim>\<open>fire\<close> has returned, the \<^verbatim>\<open>then\<close> handler records the alert.
\<close>

fun sendLoop :: "criticalAlertsService \<Rightarrow> int \<Rightarrow> alert list \<Rightarrow> nat \<Rightarrow> alertState
    \<Rightarrow> (error + nat) \<times> alertState" where
  "sendLoop svc epoch [] count st = (Inr count, st)"
| "sendLoop svc epoch (al # rest) count st =
     (let st1 = st\<lparr>evaluated := evaluated st @ [alertname al]\<rparr> in
      case toSend al epoch (sentAlerts st) of
        Inl e \<Rightarrow> (Inl e, st1)
      | Inr None \<Rightarrow> sendLoop svc epoch rest count st1
      | Inr (Some prepared) \<Rightarrow>
          (let st2 = fire svc (body prepared) st1;
               st3 = st2\<lparr>sentAlerts := (sentAlerts st2)(alertname al \<mapsto> prepared)\<rparr>
           in sendLoop svc epoch rest (count + 1) st3))"

text \<open>
  \<^verbatim>\<open>send\<close>: the two early returns, then the loop; the \<^verbatim>\<open>catch\<close> logs. The first
  component is what the caller gets, and it is never an exception.
\<close>

definition send :: "criticalAlertsService \<Rightarrow> int \<Rightarrow> alertState \<Rightarrow> (error + unit) \<times> alertState" where
  "send svc epoch st =
     (if slotTimeDiffWithNow svc > 3600000
        then (Inr (), st\<lparr>logged := logged st
                @ [''Data actuality greater than 1 hour. Critical alerts are suppressed'']\<rparr>)
      else if baseUrl svc = []
        then (Inr (), st\<lparr>logged := logged st @ [''Unable to send critical alerts'']\<rparr>)
      else case sendLoop svc epoch (alerts svc) 0 st of
             (Inr count, st') \<Rightarrow> (Inr (), st'\<lparr>logged := logged st' @ [''Sent critical alerts'']\<rparr>)
           | (Inl e, st') \<Rightarrow>
               (Inr (), st'\<lparr>logged := logged st'
                  @ [''Error when trying to processing critical alerts'']\<rparr>))"

text \<open>
  Inputs used to evaluate the alert engine: a rule result with one operator for each of
  the two rules; a prepared alert; one alert that always decides to send and one whose
  evaluation throws; a service whose alert sink delivers every request or none; a state
  in which an earlier alert is recorded.
\<close>

definition negativeDeltaResult :: AlertRuleResult where
  "negativeDeltaResult = [(''operatorA'', [(''ongoing'', 9), (''negDelta'', 4)])]"

definition missedProposesResult :: AlertRuleResult where
  "missedProposesResult = [(''operatorA'', [(''all'', 3), (''missed'', 2)])]"

definition preparedAt :: "int \<Rightarrow> PreparedToSendAlert" where
  "preparedAt t = \<lparr>timestamp = t,
      body = \<lparr>startsAt = t, endsAt = t + 60000,
               labels = [(''alertname'', ''CriticalNegativeDelta''), (''severity'', ''critical'')],
               annotations = []\<rparr>,
      ruleResult = negativeDeltaResult\<rparr>"

definition alwaysSends :: alert where
  "alwaysSends = \<lparr>alertname = ''CriticalNegativeDelta'',
                   toSend = (\<lambda>epoch sent. Inr (Some (preparedAt 1700000000000)))\<rparr>"


definition serviceWith :: "bool \<Rightarrow> alert list \<Rightarrow> criticalAlertsService" where
  "serviceWith delivered als =
     \<lparr>baseUrl = ''http://alertmanager'', slotTimeDiffWithNow = 0, alerts = als,
      delivery = (\<lambda>b. delivered)\<rparr>"

definition stateWithOldRecord :: alertState where
  "stateWithOldRecord = \<lparr>sentAlerts = [''CriticalNegativeDelta'' \<mapsto> preparedAt 1600000000000],
      posted = [], failedDeliveries = [], evaluated = [], logged = []\<rparr>"

text \<open>
  Two states that differ at most in the deliveries logged as failed: the relation between
  the outcomes of one cycle under two alert sinks.
\<close>

definition sameButDeliveries :: "alertState \<Rightarrow> alertState \<Rightarrow> bool" where
  "sameButDeliveries st st' \<longleftrightarrow>
     sentAlerts st = sentAlerts st' \<and> posted st = posted st'
     \<and> evaluated st = evaluated st' \<and> logged st = logged st'"

section \<open>Properties of the scheduler\<close>

lemma sdiv_pos_step:
  fixes s step :: int
  assumes "0 < step"
  shows "s sdiv step = (if 0 \<le> s then s div step else - ((- s) div step))"
  using assms by (simp add: signed_divide_int_def sgn_if)

lemma sdiv_mult_lower:
  fixes s step :: int
  assumes "0 < step"
  shows "s - step < (s sdiv step) * step"
proof (cases "0 \<le> s")
  case True
  have "s = (s div step) * step + s mod step" by simp
  moreover have "s mod step < step" using assms by simp
  ultimately have "s - step < (s div step) * step" by linarith
  then show ?thesis using True assms by (simp add: sdiv_pos_step)
next
  case False
  have "- s = ((- s) div step) * step + (- s) mod step" by simp
  moreover have "0 \<le> (- s) mod step" using assms by simp
  ultimately have "((- s) div step) * step \<le> - s" by linarith
  then have "s \<le> - (((- s) div step) * step)" by linarith
  then show ?thesis using False assms by (simp add: sdiv_pos_step)
qed

lemma latestSlotInEpoch_mod:
  assumes "0 < step"
  shows "latestSlotInEpoch step s mod step = step - 1"
proof -
  have "((s sdiv step) * step + (step - 1)) mod step = (step - 1) mod step"
    by (simp add: mod_mult_self3)
  also have "\<dots> = step - 1" using assms by (intro mod_pos_pos_trivial) simp_all
  finally show ?thesis by (simp add: latestSlotInEpoch_def)
qed

lemma latestSlotInEpoch_ge:
  assumes "0 < step"
  shows "s \<le> latestSlotInEpoch step s"
  using sdiv_mult_lower [OF assms, of s] by (simp add: latestSlotInEpoch_def)

text \<open>For a slot that is not negative the truncating quotient is the usual one.\<close>

lemma latestSlotInEpoch_nonneg:
  assumes "0 < step" and "0 \<le> s"
  shows "latestSlotInEpoch step s = (s div step) * step + (step - 1)"
  using assms by (simp add: latestSlotInEpoch_def sdiv_pos_step)

text \<open>
  Where a slot that is already the last one of its epoch is mapped: to itself, except for a
  negative slot, where the truncation towards zero selects the following epoch.
\<close>

lemma latestSlotInEpoch_aligned:
  assumes "0 < step" and "r mod step = step - 1"
  shows "latestSlotInEpoch step r = (if 0 \<le> r \<or> step = 1 then r else r + step)"
proof (cases "0 \<le> r")
  case True
  have "r = (r div step) * step + r mod step" by simp
  then have "(r div step) * step + (step - 1) = r" using assms(2) by simp
  then show ?thesis using True assms(1) by (simp add: latestSlotInEpoch_def sdiv_pos_step)
next
  case False
  show ?thesis
  proof (cases "step = 1")
    case True
    then show ?thesis by (simp add: latestSlotInEpoch_def)
  next
    case ne: False
    define q where "q = r div step"
    have r: "r = q * step + (step - 1)" using assms(2) unfolding q_def
      by (metis mult.commute mult_div_mod_eq)
    have neg: "- r = (- (q + 1)) * step + 1" using r by (simp add: algebra_simps)
    have "1 < step" using ne assms(1) by simp
    then have "(- r) div step = - (q + 1)" unfolding neg
      by (simp add: div_pos_pos_trivial)
    then have "r sdiv step = q + 1" using False assms(1) by (simp add: sdiv_pos_step)
    then have "latestSlotInEpoch step r = (q + 1) * step + (step - 1)"
      by (simp add: latestSlotInEpoch_def)
    also have "\<dots> = r + step" using r by (simp add: algebra_simps)
    finally show ?thesis using False ne by simp
  qed
qed

text \<open>
  Claim C6. For a positive step, \<^verbatim>\<open>calculateNextFinalizedSlot\<close> returns a slot \<open>r\<close>
  that is the last slot of an epoch (\<open>r mod step = step - 1\<close>) and lies strictly above
  \<open>max latestSlotInDb START_SLOT\<close>. It is the starting point plus one full step when the
  starting point is already the last slot of its epoch, and the last slot of the starting
  point's epoch otherwise. Once \<open>latestSlotInDb\<close> has advanced to \<open>r\<close>, the next target is
  \<open>r + step\<close>: successive targets increase strictly, one epoch at a time, and none is
  returned twice.
\<close>

theorem calculateNextFinalizedSlot_aligned_increasing:
  assumes "0 < FETCH_INTERVAL_SLOTS c"
  shows "\<exists>r. calculateNextFinalizedSlot c = Inr r
           \<and> r mod FETCH_INTERVAL_SLOTS c = FETCH_INTERVAL_SLOTS c - 1
           \<and> max (latestSlotInDb c) (START_SLOT c) < r
           \<and> r = (if startingSlot c = latestSlotInEpoch (FETCH_INTERVAL_SLOTS c) (startingSlot c)
                  then startingSlot c + FETCH_INTERVAL_SLOTS c
                  else latestSlotInEpoch (FETCH_INTERVAL_SLOTS c) (startingSlot c))
           \<and> calculateNextFinalizedSlot (c\<lparr>latestSlotInDb := r\<rparr>)
               = Inr (r + FETCH_INTERVAL_SLOTS c)"
proof -
  define step where "step = FETCH_INTERVAL_SLOTS c"
  define s where "s = startingSlot c"
  define r where "r = (if latestSlotInEpoch step s = s then s + step else latestSlotInEpoch step s)"
  have pos: "0 < step" using assms by (simp add: step_def)
  have smax: "s = max (latestSlotInDb c) (START_SLOT c)"
    by (simp add: s_def startingSlot_def max_def)
  have res: "calculateNextFinalizedSlot c = Inr r"
    using pos by (auto simp: calculateNextFinalizedSlot_def Let_def step_def s_def r_def)
  have ge: "s \<le> latestSlotInEpoch step s" by (rule latestSlotInEpoch_ge [OF pos])
  have gt: "s < r" using ge pos by (simp add: r_def)
  have "(s + step) mod step = s mod step" by simp
  then have al: "r mod step = step - 1"
    using latestSlotInEpoch_mod [OF pos, of s] by (auto simp: r_def)
  have start': "startingSlot (c\<lparr>latestSlotInDb := r\<rparr>) = r"
    using gt smax by (simp add: startingSlot_def)
  have "latestSlotInEpoch step r = r \<or> latestSlotInEpoch step r = r + step \<and> latestSlotInEpoch step r \<noteq> r"
    using latestSlotInEpoch_aligned [OF pos al] pos by (auto split: if_splits)
  then have nxt: "calculateNextFinalizedSlot (c\<lparr>latestSlotInDb := r\<rparr>) = Inr (r + step)"
    using pos start' by (auto simp: calculateNextFinalizedSlot_def Let_def step_def)
  show ?thesis
    using res al gt nxt unfolding smax [symmetric] r_def step_def [symmetric] s_def [symmetric]
    by (intro exI [of _ r]) (auto simp: r_def)
qed

theorem calculateNextFinalizedSlot_witness:
  "(0::int) < 32
   \<and> calculateNextFinalizedSlot \<lparr>FETCH_INTERVAL_SLOTS = 32, START_SLOT = 0, latestSlotInDb = 31\<rparr>
       = Inr 63
   \<and> calculateNextFinalizedSlot \<lparr>FETCH_INTERVAL_SLOTS = 32, START_SLOT = 0, latestSlotInDb = 40\<rparr>
       = Inr 63
   \<and> calculateNextFinalizedSlot \<lparr>FETCH_INTERVAL_SLOTS = 32, START_SLOT = 0, latestSlotInDb = 63\<rparr>
       = Inr 95
   \<and> (63::int) mod 32 = 31 \<and> max (40::int) 0 < 63"
  using calculateNextFinalizedSlot_aligned_increasing
    [of "\<lparr>FETCH_INTERVAL_SLOTS = 32, START_SLOT = 0, latestSlotInDb = 31\<rparr>"]
    calculateNextFinalizedSlot_aligned_increasing
    [of "\<lparr>FETCH_INTERVAL_SLOTS = 32, START_SLOT = 0, latestSlotInDb = 40\<rparr>"]
  by (simp add: calculateNextFinalizedSlot_def startingSlot_def latestSlotInEpoch_def
      signed_divide_int_def)

section \<open>Properties of the summary service\<close>

lemma getProp_update: "getProp (AList.update k v ob) k' = (if k' = k then v else getProp ob k')"
  by (simp add: getProp_def update_conv')




lemma getProp_assignMergeValue_defined:
  "v \<noteq> Undefined \<Longrightarrow> getProp (assignMergeValue ob k v) k = v"
  by (simp add: assignMergeValue_def getProp_update)


lemma stripMeta_props:
  "getProp (stripMeta v) k = (if k = ''att_meta'' \<or> k = ''sync_meta'' then Undefined else getProp v k)"
  by (simp add: stripMeta_def getProp_update)




text \<open>
  Claim C9. \<^verbatim>\<open>valuesToWrite\<close> returns one object per stored summary, in the order of
  the map. In each of them \<^verbatim>\<open>att_meta\<close> and \<^verbatim>\<open>sync_meta\<close> read as
  \<^verbatim>\<open>undefined\<close>, and every other property reads as it does in the stored summary at the
  same position. The service, and with it the stored summaries, is left as it was.
\<close>

theorem valuesToWrite_strips_meta:
  "snd (valuesToWrite svc) = svc
   \<and> length (fst (valuesToWrite svc)) = length (storage svc)
   \<and> (\<forall>i < length (storage svc).
         getProp (fst (valuesToWrite svc) ! i) ''att_meta'' = Undefined
       \<and> getProp (fst (valuesToWrite svc) ! i) ''sync_meta'' = Undefined
       \<and> (\<forall>k. k \<noteq> ''att_meta'' \<longrightarrow> k \<noteq> ''sync_meta'' \<longrightarrow>
              getProp (fst (valuesToWrite svc) ! i) k = getProp (snd (storage svc ! i)) k))"
  by (simp add: valuesToWrite_def values_summary_def stripMeta_props)

theorem valuesToWrite_witness:
  "(0::nat) < length (storage svc0)
   \<and> ''att_happened'' \<noteq> ''att_meta'' \<and> ''att_happened'' \<noteq> ''sync_meta''
   \<and> getProp (fst (valuesToWrite svc0) ! 0) ''att_meta'' = Undefined
   \<and> getProp (fst (valuesToWrite svc0) ! 0) ''att_happened'' = Bool True
   \<and> getProp (snd (storage svc0 ! 0)) ''att_meta'' = Object [(''included_in_block'', BigInt 41)]
   \<and> snd (valuesToWrite svc0) = svc0"
  using valuesToWrite_strips_meta [of svc0]
  by (simp add: svc0_def getProp_def)



section \<open>Properties of the chain client\<close>

subsection \<open>Retry and fallback\<close>

lemma retrier_apiGet_all_fail:
  "(\<And>j. j < max 1 n \<Longrightarrow> isl (beacon env (length lg + j) url st)) \<Longrightarrow>
   retrier n (apiGet env url st) lg
     = (beacon env (length lg + (max 1 n - 1)) url st, lg @ replicate (max 1 n) (url, st))"
proof (induction n arbitrary: lg)
  case 0
  then show ?case by (simp add: apiGet_def)
next
  case (Suc n)
  have f0: "isl (beacon env (length lg) url st)" using Suc.prems [of 0] by simp
  then obtain e where e: "beacon env (length lg) url st = Inl e" by (cases "beacon env (length lg) url st") auto
  show ?case
  proof (cases "n = 0")
    case True
    then show ?thesis using e by (simp add: apiGet_def)
  next
    case False
    then have mx: "max 1 n = n" "max 1 (Suc n) = Suc n" by simp_all
    have "isl (beacon env (length (lg @ [(url, st)]) + j) url st)" if "j < max 1 n" for j
      using Suc.prems [of "Suc j"] that mx by simp
    from Suc.IH [OF this]
    have "retrier n (apiGet env url st) (lg @ [(url, st)])
        = (beacon env (length lg + n) url st, lg @ replicate (Suc n) (url, st))"
      using False mx by (simp add: replicate_app_Cons_same)
    moreover have "retrier (Suc n) (apiGet env url st) lg
        = retrier n (apiGet env url st) (lg @ [(url, st)])"
      using e False by (simp add: apiGet_def)
    ultimately show ?thesis using mx by simp
  qed
qed

lemma retrier_apiGet_shape:
  "\<exists>k. 1 \<le> k \<and> k \<le> max 1 n \<and> snd (retrier n (apiGet env url st) lg) = lg @ replicate k (url, st)"
proof (induction n arbitrary: lg)
  case 0
  show ?case by (rule exI [of _ 1]) (simp add: apiGet_def)
next
  case (Suc n)
  show ?case
  proof (cases "beacon env (length lg) url st")
    case (Inr h)
    then show ?thesis by (intro exI [of _ 1]) (simp add: apiGet_def)
  next
    case (Inl e)
    show ?thesis
    proof (cases "n = 0")
      case True
      then show ?thesis using Inl by (intro exI [of _ 1]) (simp add: apiGet_def)
    next
      case False
      obtain k where k: "1 \<le> k" "k \<le> max 1 n"
        "snd (retrier n (apiGet env url st) (lg @ [(url, st)])) = (lg @ [(url, st)]) @ replicate k (url, st)"
        using Suc.IH [of "lg @ [(url, st)]"] by blast
      have "retrier (Suc n) (apiGet env url st) lg
          = retrier n (apiGet env url st) (lg @ [(url, st)])"
        using Inl False by (simp add: apiGet_def)
      then show ?thesis using k False
        by (intro exI [of _ "Suc k"]) simp
    qed
  qed
qed


lemma getBeaconBlockHeader_unfold:
  "getBeaconBlockHeader env st n lg =
     (case apiGet env (ETH2_BEACON_RPC_URL env) st lg of
        (Inr res, lg1) \<Rightarrow> (Inr res, lg1)
      | (Inl e0, lg1) \<Rightarrow>
          (case retrier n (apiGet env (ETH2_BEACON_RPC_URL env) st) lg1 of
             (Inr res, lg2) \<Rightarrow> (Inr res, lg2)
           | (Inl e, lg2) \<Rightarrow>
               if Some 404 \<noteq> httpCode e then
                 (if ETH2_BEACON_RPC_URL_BACKUP env = [] then (Inl e, lg2)
                  else retrier n (apiGet env (ETH2_BEACON_RPC_URL_BACKUP env) st) lg2)
               else (Inl e, lg2)))"
  by (simp add: getBeaconBlockHeader_def retryRequest_def)

text \<open>
  When every request of the primary phase fails (the first call and the retrier's
  attempts), the last of these errors decides: the retrier runs on the backup URL if the
  error is not a 404 and a backup URL is configured, and the error is thrown otherwise.
\<close>

lemma getBeaconBlockHeader_primary_exhausted:
  assumes "\<And>j. j \<le> max 1 n \<Longrightarrow> isl (beacon env (length lg + j) (ETH2_BEACON_RPC_URL env) st)"
  shows "getBeaconBlockHeader env st n lg =
     (let e = projl (beacon env (length lg + max 1 n) (ETH2_BEACON_RPC_URL env) st);
          lg2 = lg @ replicate (Suc (max 1 n)) (ETH2_BEACON_RPC_URL env, st)
      in if Some 404 \<noteq> httpCode e \<and> ETH2_BEACON_RPC_URL_BACKUP env \<noteq> []
         then retrier n (apiGet env (ETH2_BEACON_RPC_URL_BACKUP env) st) lg2
         else (Inl e, lg2))"
proof -
  let ?m = "ETH2_BEACON_RPC_URL env"
  obtain e0 where e0: "beacon env (length lg) ?m st = Inl e0"
    using assms [of 0] by (cases "beacon env (length lg) ?m st") auto
  have first: "apiGet env ?m st lg = (Inl e0, lg @ [(?m, st)])"
    using e0 by (simp add: apiGet_def)
  have "retrier n (apiGet env ?m st) (lg @ [(?m, st)])
      = (beacon env (length (lg @ [(?m, st)]) + (max 1 n - 1)) ?m st,
         (lg @ [(?m, st)]) @ replicate (max 1 n) (?m, st))"
  proof (rule retrier_apiGet_all_fail)
    fix j assume "j < max 1 n"
    then show "isl (beacon env (length (lg @ [(?m, st)]) + j) ?m st)"
      using assms [of "Suc j"] by simp
  qed
  moreover have "length (lg @ [(?m, st)]) + (max 1 n - 1) = length lg + max 1 n"
    by (auto simp: max_def)
  ultimately have second: "retrier n (apiGet env ?m st) (lg @ [(?m, st)])
      = (beacon env (length lg + max 1 n) ?m st, lg @ replicate (Suc (max 1 n)) (?m, st))"
    by (simp add: replicate_app_Cons_same)
  obtain e where e: "beacon env (length lg + max 1 n) ?m st = Inl e"
    using assms [of "max 1 n"] by (cases "beacon env (length lg + max 1 n) ?m st") auto
  show ?thesis
    using e by (simp add: getBeaconBlockHeader_unfold first second Let_def)
qed

text \<open>
  Claim C7, as stated, at an API that answers 404: the first answer is a 404, and the
  client goes on to ask the primary endpoint three more times before it gives up. The
  404 is retried; what it prevents is the switch to the backup URL.
\<close>

theorem getBeaconBlockHeader_404_retried_counterexample:
  "beacon env404 (length ([] :: requestLog)) (ETH2_BEACON_RPC_URL env404) (Slot 40) = Inl notFound
   \<and> httpCode notFound = Some 404
   \<and> getBeaconBlockHeader env404 (Slot 40) 3 [] \<noteq> (Inl notFound, [(''main'', Slot 40)])
   \<and> getBeaconBlockHeader env404 (Slot 40) 3 []
       = (Inl notFound,
          [(''main'', Slot 40), (''main'', Slot 40), (''main'', Slot 40), (''main'', Slot 40)])"
  by (simp add: getBeaconBlockHeader_unfold apiGet_def env404_def notFound_def httpCode_def
      eval_nat_numeral)

text \<open>
  Claim C7, amended. Let a header lookup with retry budget \<open>n\<close> find the primary endpoint
  failing on the first request and on every attempt of the retrier, \<open>max 1 n\<close> of them,
  and let \<open>e\<close> be the last of these errors. All these requests went to the primary
  endpoint, whatever the status of the failures. Then:
  \<^item> if \<open>e\<close> is a 404, the lookup fails with \<open>e\<close> and no request goes to the backup
    endpoint;
  \<^item> if \<open>e\<close> is not a 404 and a backup endpoint is configured, the lookup continues as
    the retrier on the backup endpoint, with the same budget: between one and \<open>max 1 n\<close>
    further requests, all to the backup endpoint;
  \<^item> if no backup endpoint is configured, the lookup fails with \<open>e\<close>.
\<close>

theorem getBeaconBlockHeader_fallback_policy:
  assumes "\<forall>j \<le> max 1 n. isl (beacon env (length lg + j) (ETH2_BEACON_RPC_URL env) st)"
  shows "let main = ETH2_BEACON_RPC_URL env;
             backup = ETH2_BEACON_RPC_URL_BACKUP env;
             e = projl (beacon env (length lg + max 1 n) main st);
             lg2 = lg @ replicate (Suc (max 1 n)) (main, st)
         in (httpCode e = Some 404 \<longrightarrow> getBeaconBlockHeader env st n lg = (Inl e, lg2))
          \<and> (httpCode e \<noteq> Some 404 \<longrightarrow> backup \<noteq> [] \<longrightarrow>
                getBeaconBlockHeader env st n lg = retrier n (apiGet env backup st) lg2
              \<and> (\<exists>k. 1 \<le> k \<and> k \<le> max 1 n
                     \<and> snd (getBeaconBlockHeader env st n lg) = lg2 @ replicate k (backup, st)))
          \<and> (backup = [] \<longrightarrow> getBeaconBlockHeader env st n lg = (Inl e, lg2))"
proof -
  have eq: "getBeaconBlockHeader env st n lg =
     (let e = projl (beacon env (length lg + max 1 n) (ETH2_BEACON_RPC_URL env) st);
          lg2 = lg @ replicate (Suc (max 1 n)) (ETH2_BEACON_RPC_URL env, st)
      in if Some 404 \<noteq> httpCode e \<and> ETH2_BEACON_RPC_URL_BACKUP env \<noteq> []
         then retrier n (apiGet env (ETH2_BEACON_RPC_URL_BACKUP env) st) lg2
         else (Inl e, lg2))"
    using assms by (intro getBeaconBlockHeader_primary_exhausted) blast
  show ?thesis
    unfolding eq Let_def
    using retrier_apiGet_shape [of n env "ETH2_BEACON_RPC_URL_BACKUP env" st
        "lg @ replicate (Suc (max 1 n)) (ETH2_BEACON_RPC_URL env, st)"]
    by auto
qed

theorem getBeaconBlockHeader_fallback_witness:
  "isl (beacon envDown 0 ''main'' (Slot 40)) \<and> isl (beacon envDown 1 ''main'' (Slot 40))
   \<and> isl (beacon envDown 2 ''main'' (Slot 40)) \<and> isl (beacon envDown 3 ''main'' (Slot 40))
   \<and> httpCode (projl (beacon envDown (length ([] :: requestLog) + max 1 3) (ETH2_BEACON_RPC_URL envDown) (Slot 40)))
        \<noteq> Some 404
   \<and> ETH2_BEACON_RPC_URL_BACKUP envDown \<noteq> []
   \<and> getBeaconBlockHeader envDown (Slot 40) 3 []
       = (Inr header40,
          [(''main'', Slot 40), (''main'', Slot 40), (''main'', Slot 40), (''main'', Slot 40),
           (''backup'', Slot 40)])
   \<and> isl (beacon env404 0 ''main'' (Slot 40)) \<and> isl (beacon env404 1 ''main'' (Slot 40))
   \<and> isl (beacon env404 2 ''main'' (Slot 40)) \<and> isl (beacon env404 3 ''main'' (Slot 40))
   \<and> httpCode (projl (beacon env404 (length ([] :: requestLog) + max 1 3) (ETH2_BEACON_RPC_URL env404) (Slot 40)))
        = Some 404
   \<and> getBeaconBlockHeader env404 (Slot 40) 3 []
       = (Inl notFound,
          [(''main'', Slot 40), (''main'', Slot 40), (''main'', Slot 40), (''main'', Slot 40)])"
  using getBeaconBlockHeader_fallback_policy [of 3 envDown "[]" "Slot 40"]
        getBeaconBlockHeader_fallback_policy [of 3 env404 "[]" "Slot 40"]
  by (simp add: envDown_def env404_def unavailable_def notFound_def httpCode_def apiGet_def
      eval_nat_numeral Let_def)

subsection \<open>Searching for a header that is not missed\<close>

lemma getBeaconBlockHeader_requests:
  "\<exists>k. 1 \<le> k \<and> (\<exists>reqs. snd (getBeaconBlockHeader env st n lg) = lg @ reqs
        \<and> map snd reqs = replicate k st)"
proof -
  let ?m = "ETH2_BEACON_RPC_URL env" and ?b = "ETH2_BEACON_RPC_URL_BACKUP env"
  let ?lg1 = "lg @ [(?m, st)]"
  obtain k1 where k1: "snd (retrier n (apiGet env ?m st) ?lg1) = ?lg1 @ replicate k1 (?m, st)"
    using retrier_apiGet_shape [of n env ?m st ?lg1] by blast
  let ?lg2 = "?lg1 @ replicate k1 (?m, st)"
  obtain k2 where k2: "snd (retrier n (apiGet env ?b st) ?lg2) = ?lg2 @ replicate k2 (?b, st)"
    using retrier_apiGet_shape [of n env ?b st ?lg2] by blast
  have first: "apiGet env ?m st lg = (beacon env (length lg) ?m st, ?lg1)"
    by (simp add: apiGet_def)
  have cases3: "snd (getBeaconBlockHeader env st n lg) = ?lg1
      \<or> snd (getBeaconBlockHeader env st n lg) = ?lg2
      \<or> snd (getBeaconBlockHeader env st n lg) = ?lg2 @ replicate k2 (?b, st)"
  proof (cases "beacon env (length lg) ?m st")
    case (Inr h)
    then show ?thesis by (simp add: getBeaconBlockHeader_unfold first)
  next
    case (Inl e0)
    obtain r where r: "retrier n (apiGet env ?m st) ?lg1 = (r, ?lg2)"
      using k1 by (cases "retrier n (apiGet env ?m st) ?lg1") simp
    show ?thesis
    proof (cases r)
      case (Inr h)
      then show ?thesis using Inl r by (simp add: getBeaconBlockHeader_unfold first)
    next
      case e: (Inl e)
      show ?thesis
      proof (cases "Some 404 \<noteq> httpCode e \<and> ?b \<noteq> []")
        case True
        then have "getBeaconBlockHeader env st n lg = retrier n (apiGet env ?b st) ?lg2"
          using Inl r e by (simp add: getBeaconBlockHeader_unfold first)
        then show ?thesis using k2 by simp
      next
        case False
        then have "getBeaconBlockHeader env st n lg = (Inl e, ?lg2)"
          using Inl r e by (auto simp add: getBeaconBlockHeader_unfold first)
        then show ?thesis by simp
      qed
    qed
  qed
  then consider (a) "snd (getBeaconBlockHeader env st n lg) = ?lg1"
    | (b) "snd (getBeaconBlockHeader env st n lg) = ?lg2"
    | (c) "snd (getBeaconBlockHeader env st n lg) = ?lg2 @ replicate k2 (?b, st)"
    by blast
  then show ?thesis
  proof cases
    case a
    then show ?thesis by (intro exI [of _ 1] conjI exI [of _ "[(?m, st)]"]) simp_all
  next
    case b
    then show ?thesis
      by (intro exI [of _ "Suc k1"] conjI exI [of _ "(?m, st) # replicate k1 (?m, st)"]) simp_all
  next
    case c
    then show ?thesis
      by (intro exI [of _ "Suc k1 + k2"] conjI
            exI [of _ "(?m, st) # replicate k1 (?m, st) @ replicate k2 (?b, st)"])
         (simp_all add: replicate_add)
  qed
qed

lemma remdups_adj_replicate_append:
  "1 \<le> k \<Longrightarrow> ys = [] \<or> hd ys \<noteq> x \<Longrightarrow> remdups_adj (replicate k x @ ys) = x # remdups_adj ys"
proof (induction k)
  case 0
  then show ?case by simp
next
  case (Suc k)
  show ?case
  proof (cases k)
    case 0
    then show ?thesis using Suc.prems by (cases ys) auto
  next
    case (Suc k')
    then have "remdups_adj (replicate k x @ ys) = x # remdups_adj ys"
      using Suc.IH Suc.prems by simp
    then show ?thesis using Suc by simp
  qed
qed


lemma map_upt_Suc_shift:
  "f 0 # map (\<lambda>i. f (Suc i)) [0..<m] = map f [0..<Suc m]"
proof -
  have "[0..<Suc m] = 0 # map Suc [0..<m]"
    by (simp add: upt_conv_Cons map_Suc_upt del: upt_Suc)
  then show ?thesis by (simp add: comp_def del: upt_Suc)
qed

lemma getBeaconBlockHeader_all_404:
  assumes "\<And>t url. \<exists>msg. beacon env t url st = Inl (BeaconChainGeneralApiError msg (Some 404))"
  shows "\<exists>e t url. getBeaconBlockHeader env st n lg
            = (Inl e, lg @ replicate (Suc (max 1 n)) (ETH2_BEACON_RPC_URL env, st))
          \<and> httpCode e = Some 404 \<and> beacon env t url st = Inl e"
proof -
  let ?m = "ETH2_BEACON_RPC_URL env"
  obtain msg where msg: "beacon env (length lg + max 1 n) ?m st
      = Inl (BeaconChainGeneralApiError msg (Some 404))"
    using assms by blast
  have "isl (beacon env (length lg + j) ?m st)" for j
    using assms [of "length lg + j" ?m] by auto
  then have "getBeaconBlockHeader env st n lg =
     (let e = projl (beacon env (length lg + max 1 n) ?m st);
          lg2 = lg @ replicate (Suc (max 1 n)) (?m, st)
      in if Some 404 \<noteq> httpCode e \<and> ETH2_BEACON_RPC_URL_BACKUP env \<noteq> []
         then retrier n (apiGet env (ETH2_BEACON_RPC_URL_BACKUP env) st) lg2
         else (Inl e, lg2))"
    by (intro getBeaconBlockHeader_primary_exhausted)
  then have "getBeaconBlockHeader env st n lg
      = (Inl (BeaconChainGeneralApiError msg (Some 404)), lg @ replicate (Suc (max 1 n)) (?m, st))"
    using msg by (simp add: Let_def httpCode_def)
  then show ?thesis using msg by (auto simp: httpCode_def)
qed

lemma getNextNotMissedBlockHeader_probes:
  "\<exists>reqs m. snd (getNextNotMissedBlockHeader env slot maxDeep lg) = lg @ reqs
      \<and> 1 \<le> m \<and> m \<le> nat maxDeep + 1
      \<and> remdups_adj (map snd reqs) = map (\<lambda>i. Slot (slot + int i)) [0..<m]"
proof (induction env slot maxDeep lg rule: getNextNotMissedBlockHeader.induct)
  case (1 env slot maxDeep lg)
  obtain k r0 where r0: "1 \<le> k" "snd (getBeaconBlockHeader env (Slot slot) 3 lg) = lg @ r0"
      "map snd r0 = replicate k (Slot slot)"
    using getBeaconBlockHeader_requests [of env "Slot slot" 3 lg] by blast
  obtain res where gb: "getBeaconBlockHeader env (Slot slot) 3 lg = (res, lg @ r0)"
    using r0(2) by (cases "getBeaconBlockHeader env (Slot slot) 3 lg") simp
  have one: "remdups_adj (map snd r0) = map (\<lambda>i. Slot (slot + int i)) [0..<1]"
    using r0(1,3) by (simp add: remdups_adj_replicate)
  show ?case
  proof (cases "\<exists>e. res = Inl e \<and> httpCode e = Some 404 \<and> \<not> maxDeep < 1")
    case False
    then have "getNextNotMissedBlockHeader env slot maxDeep lg = (res, lg @ r0)"
      using gb by (cases res) auto
    then show ?thesis using one
      by (intro exI [of _ r0] exI [of _ 1]) simp
  next
    case True
    then obtain e where e: "res = Inl e" "httpCode e = Some 404" "\<not> maxDeep < 1" by blast
    have rec: "getNextNotMissedBlockHeader env slot maxDeep lg
        = getNextNotMissedBlockHeader env (slot + 1) (maxDeep - 1) (lg @ r0)"
      using gb e by simp
    obtain reqs' m' where ih:
      "snd (getNextNotMissedBlockHeader env (slot + 1) (maxDeep - 1) (lg @ r0)) = (lg @ r0) @ reqs'"
      "1 \<le> m'" "m' \<le> nat (maxDeep - 1) + 1"
      "remdups_adj (map snd reqs') = map (\<lambda>i. Slot (slot + 1 + int i)) [0..<m']"
      using "1.IH" [OF gb [symmetric] e(1)] e(2,3) by auto
    have "hd (remdups_adj (map snd reqs')) = Slot (slot + 1)"
      using ih(2,4) by (simp add: upt_conv_Cons del: upt_Suc)
    then have hd: "map snd reqs' = [] \<or> hd (map snd reqs') \<noteq> Slot slot"
      by (simp add: hd_remdups_adj)
    have "remdups_adj (map snd (r0 @ reqs'))
        = Slot slot # map (\<lambda>i. Slot (slot + 1 + int i)) [0..<m']"
      using remdups_adj_replicate_append [OF r0(1) hd] r0(3) ih(4) by simp
    also have "\<dots> = Slot (slot + int 0) # map (\<lambda>i. Slot (slot + int (Suc i))) [0..<m']"
      by (simp add: add.assoc)
    also have "\<dots> = map (\<lambda>i. Slot (slot + int i)) [0..<Suc m']"
      by (rule map_upt_Suc_shift)
    finally have "remdups_adj (map snd (r0 @ reqs')) = map (\<lambda>i. Slot (slot + int i)) [0..<Suc m']" .
    moreover have "Suc m' \<le> nat maxDeep + 1" using ih(3) e(3) by simp
    ultimately show ?thesis using rec ih(1)
      by (intro exI [of _ "r0 @ reqs'"] exI [of _ "Suc m'"]) simp
  qed
qed


lemma getNextNotMissedBlockHeader_all_missing:
  assumes "\<And>t url i. 0 \<le> i \<Longrightarrow> i \<le> max 0 maxDeep \<Longrightarrow>
             \<exists>msg. beacon env t url (Slot (slot + i)) = Inl (BeaconChainGeneralApiError msg (Some 404))"
  shows "\<exists>e t url reqs. getNextNotMissedBlockHeader env slot maxDeep lg = (Inl e, lg @ reqs)
          \<and> httpCode e = Some 404
          \<and> beacon env t url (Slot (slot + max 0 maxDeep)) = Inl e
          \<and> remdups_adj (map snd reqs) = map (\<lambda>i. Slot (slot + int i)) [0..<nat maxDeep + 1]"
  using assms
proof (induction env slot maxDeep lg rule: getNextNotMissedBlockHeader.induct)
  case (1 env slot maxDeep lg)
  let ?r0 = "replicate (Suc (max 1 3)) (ETH2_BEACON_RPC_URL env, Slot slot)"
  have "\<exists>msg. beacon env t url (Slot slot) = Inl (BeaconChainGeneralApiError msg (Some 404))" for t url
    using "1.prems" [of 0 t url] by simp
  from getBeaconBlockHeader_all_404 [of env "Slot slot", OF this]
  obtain e t url where gb: "getBeaconBlockHeader env (Slot slot) 3 lg = (Inl e, lg @ ?r0)"
    and e: "httpCode e = Some 404" "beacon env t url (Slot slot) = Inl e"
    by blast
  have r0: "map snd ?r0 = replicate (Suc (max 1 3)) (Slot slot)" by simp
  show ?case
  proof (cases "maxDeep < 1")
    case True
    then have "getNextNotMissedBlockHeader env slot maxDeep lg = (Inl e, lg @ ?r0)"
      using gb e by simp
    moreover have "remdups_adj (map snd ?r0) = map (\<lambda>i. Slot (slot + int i)) [0..<nat maxDeep + 1]"
      using True by (simp add: remdups_adj_replicate)
    moreover have "slot + max 0 maxDeep = slot" using True by simp
    ultimately show ?thesis using e by metis
  next
    case False
    have rec: "getNextNotMissedBlockHeader env slot maxDeep lg
        = getNextNotMissedBlockHeader env (slot + 1) (maxDeep - 1) (lg @ ?r0)"
      using gb e False by simp
    have "\<exists>msg. beacon env t url (Slot (slot + 1 + i)) = Inl (BeaconChainGeneralApiError msg (Some 404))"
      if "0 \<le> i" "i \<le> max 0 (maxDeep - 1)" for t url i
      using "1.prems" [of "1 + i" t url] that False by (simp add: add.assoc)
    from "1.IH" [OF gb [symmetric] refl _ False this]
    obtain e' t' url' reqs' where ih:
      "getNextNotMissedBlockHeader env (slot + 1) (maxDeep - 1) (lg @ ?r0) = (Inl e', (lg @ ?r0) @ reqs')"
      "httpCode e' = Some 404"
      "beacon env t' url' (Slot (slot + 1 + max 0 (maxDeep - 1))) = Inl e'"
      "remdups_adj (map snd reqs') = map (\<lambda>i. Slot (slot + 1 + int i)) [0..<nat (maxDeep - 1) + 1]"
      using e by auto
    have "hd (remdups_adj (map snd reqs')) = Slot (slot + 1)"
      using ih(4) by (simp add: upt_conv_Cons del: upt_Suc)
    then have hd: "map snd reqs' = [] \<or> hd (map snd reqs') \<noteq> Slot slot"
      by (simp add: hd_remdups_adj)
    have "remdups_adj (map snd (?r0 @ reqs'))
        = Slot slot # map (\<lambda>i. Slot (slot + 1 + int i)) [0..<nat (maxDeep - 1) + 1]"
      using remdups_adj_replicate_append [of "Suc (max 1 3)" "map snd reqs'" "Slot slot"] hd ih(4)
      by simp
    also have "\<dots> = Slot (slot + int 0)
        # map (\<lambda>i. Slot (slot + int (Suc i))) [0..<nat (maxDeep - 1) + 1]"
      by (simp add: add.assoc)
    also have "\<dots> = map (\<lambda>i. Slot (slot + int i)) [0..<Suc (nat (maxDeep - 1) + 1)]"
      by (rule map_upt_Suc_shift)
    also have "Suc (nat (maxDeep - 1) + 1) = nat maxDeep + 1" using False by simp
    finally have probes: "remdups_adj (map snd (?r0 @ reqs'))
        = map (\<lambda>i. Slot (slot + int i)) [0..<nat maxDeep + 1]" .
    have last: "slot + 1 + max 0 (maxDeep - 1) = slot + max 0 maxDeep" using False by simp
    have "getNextNotMissedBlockHeader env slot maxDeep lg = (Inl e', lg @ (?r0 @ reqs'))"
      using rec ih(1) by simp
    then show ?thesis using ih(2) ih(3) probes unfolding last by blast
  qed
qed

lemma getPreviousNotMissedBlockHeader_probes:
  "\<exists>reqs m. snd (getPreviousNotMissedBlockHeader env slot maxDeep lg) = lg @ reqs
      \<and> 1 \<le> m \<and> m \<le> nat maxDeep + 1
      \<and> remdups_adj (map snd reqs) = map (\<lambda>i. Slot (slot - int i)) [0..<m]"
proof (induction env slot maxDeep lg rule: getPreviousNotMissedBlockHeader.induct)
  case (1 env slot maxDeep lg)
  obtain k r0 where r0: "1 \<le> k" "snd (getBeaconBlockHeader env (Slot slot) 3 lg) = lg @ r0"
      "map snd r0 = replicate k (Slot slot)"
    using getBeaconBlockHeader_requests [of env "Slot slot" 3 lg] by blast
  obtain res where gb: "getBeaconBlockHeader env (Slot slot) 3 lg = (res, lg @ r0)"
    using r0(2) by (cases "getBeaconBlockHeader env (Slot slot) 3 lg") simp
  have one: "remdups_adj (map snd r0) = map (\<lambda>i. Slot (slot - int i)) [0..<1]"
    using r0(1,3) by (simp add: remdups_adj_replicate)
  show ?case
  proof (cases "\<exists>e. res = Inl e \<and> httpCode e = Some 404 \<and> \<not> maxDeep < 1")
    case False
    then have "getPreviousNotMissedBlockHeader env slot maxDeep lg = (res, lg @ r0)"
      using gb by (cases res) auto
    then show ?thesis using one
      by (intro exI [of _ r0] exI [of _ 1]) simp
  next
    case True
    then obtain e where e: "res = Inl e" "httpCode e = Some 404" "\<not> maxDeep < 1" by blast
    have rec: "getPreviousNotMissedBlockHeader env slot maxDeep lg
        = getPreviousNotMissedBlockHeader env (slot - 1) (maxDeep - 1) (lg @ r0)"
      using gb e by simp
    obtain reqs' m' where ih:
      "snd (getPreviousNotMissedBlockHeader env (slot - 1) (maxDeep - 1) (lg @ r0)) = (lg @ r0) @ reqs'"
      "1 \<le> m'" "m' \<le> nat (maxDeep - 1) + 1"
      "remdups_adj (map snd reqs') = map (\<lambda>i. Slot (slot - 1 - int i)) [0..<m']"
      using "1.IH" [OF gb [symmetric] e(1)] e(2,3) by auto
    have "hd (remdups_adj (map snd reqs')) = Slot (slot - 1)"
      using ih(2,4) by (simp add: upt_conv_Cons del: upt_Suc)
    then have hd: "map snd reqs' = [] \<or> hd (map snd reqs') \<noteq> Slot slot"
      by (simp add: hd_remdups_adj)
    have "remdups_adj (map snd (r0 @ reqs'))
        = Slot slot # map (\<lambda>i. Slot (slot - 1 - int i)) [0..<m']"
      using remdups_adj_replicate_append [OF r0(1) hd] r0(3) ih(4) by simp
    also have "\<dots> = Slot (slot - int 0) # map (\<lambda>i. Slot (slot - int (Suc i))) [0..<m']"
      by (simp add: algebra_simps)
    also have "\<dots> = map (\<lambda>i. Slot (slot - int i)) [0..<Suc m']"
      by (rule map_upt_Suc_shift)
    finally have "remdups_adj (map snd (r0 @ reqs')) = map (\<lambda>i. Slot (slot - int i)) [0..<Suc m']" .
    moreover have "Suc m' \<le> nat maxDeep + 1" using ih(3) e(3) by simp
    ultimately show ?thesis using rec ih(1)
      by (intro exI [of _ "r0 @ reqs'"] exI [of _ "Suc m'"]) simp
  qed
qed


lemma getPreviousNotMissedBlockHeader_all_missing:
  assumes "\<And>t url i. 0 \<le> i \<Longrightarrow> i \<le> max 0 maxDeep \<Longrightarrow>
             \<exists>msg. beacon env t url (Slot (slot - i)) = Inl (BeaconChainGeneralApiError msg (Some 404))"
  shows "\<exists>e t url reqs. getPreviousNotMissedBlockHeader env slot maxDeep lg = (Inl e, lg @ reqs)
          \<and> httpCode e = Some 404
          \<and> beacon env t url (Slot (slot - max 0 maxDeep)) = Inl e
          \<and> remdups_adj (map snd reqs) = map (\<lambda>i. Slot (slot - int i)) [0..<nat maxDeep + 1]"
  using assms
proof (induction env slot maxDeep lg rule: getPreviousNotMissedBlockHeader.induct)
  case (1 env slot maxDeep lg)
  let ?r0 = "replicate (Suc (max 1 3)) (ETH2_BEACON_RPC_URL env, Slot slot)"
  have "\<exists>msg. beacon env t url (Slot slot) = Inl (BeaconChainGeneralApiError msg (Some 404))" for t url
    using "1.prems" [of 0 t url] by simp
  from getBeaconBlockHeader_all_404 [of env "Slot slot", OF this]
  obtain e t url where gb: "getBeaconBlockHeader env (Slot slot) 3 lg = (Inl e, lg @ ?r0)"
    and e: "httpCode e = Some 404" "beacon env t url (Slot slot) = Inl e"
    by blast
  have r0: "map snd ?r0 = replicate (Suc (max 1 3)) (Slot slot)" by simp
  show ?case
  proof (cases "maxDeep < 1")
    case True
    then have "getPreviousNotMissedBlockHeader env slot maxDeep lg = (Inl e, lg @ ?r0)"
      using gb e by simp
    moreover have "remdups_adj (map snd ?r0) = map (\<lambda>i. Slot (slot - int i)) [0..<nat maxDeep + 1]"
      using True by (simp add: remdups_adj_replicate)
    moreover have "slot - max 0 maxDeep = slot" using True by simp
    ultimately show ?thesis using e by metis
  next
    case False
    have rec: "getPreviousNotMissedBlockHeader env slot maxDeep lg
        = getPreviousNotMissedBlockHeader env (slot - 1) (maxDeep - 1) (lg @ ?r0)"
      using gb e False by simp
    have "\<exists>msg. beacon env t url (Slot (slot - 1 - i)) = Inl (BeaconChainGeneralApiError msg (Some 404))"
      if "0 \<le> i" "i \<le> max 0 (maxDeep - 1)" for t url i
      using "1.prems" [of "1 + i" t url] that False by (simp add: algebra_simps)
    from "1.IH" [OF gb [symmetric] refl _ False this]
    obtain e' t' url' reqs' where ih:
      "getPreviousNotMissedBlockHeader env (slot - 1) (maxDeep - 1) (lg @ ?r0) = (Inl e', (lg @ ?r0) @ reqs')"
      "httpCode e' = Some 404"
      "beacon env t' url' (Slot (slot - 1 - max 0 (maxDeep - 1))) = Inl e'"
      "remdups_adj (map snd reqs') = map (\<lambda>i. Slot (slot - 1 - int i)) [0..<nat (maxDeep - 1) + 1]"
      using e by auto
    have "hd (remdups_adj (map snd reqs')) = Slot (slot - 1)"
      using ih(4) by (simp add: upt_conv_Cons del: upt_Suc)
    then have hd: "map snd reqs' = [] \<or> hd (map snd reqs') \<noteq> Slot slot"
      by (simp add: hd_remdups_adj)
    have "remdups_adj (map snd (?r0 @ reqs'))
        = Slot slot # map (\<lambda>i. Slot (slot - 1 - int i)) [0..<nat (maxDeep - 1) + 1]"
      using remdups_adj_replicate_append [of "Suc (max 1 3)" "map snd reqs'" "Slot slot"] hd ih(4)
      by simp
    also have "\<dots> = Slot (slot - int 0)
        # map (\<lambda>i. Slot (slot - int (Suc i))) [0..<nat (maxDeep - 1) + 1]"
      by (simp add: algebra_simps)
    also have "\<dots> = map (\<lambda>i. Slot (slot - int i)) [0..<Suc (nat (maxDeep - 1) + 1)]"
      by (rule map_upt_Suc_shift)
    also have "Suc (nat (maxDeep - 1) + 1) = nat maxDeep + 1" using False by simp
    finally have probes: "remdups_adj (map snd (?r0 @ reqs'))
        = map (\<lambda>i. Slot (slot - int i)) [0..<nat maxDeep + 1]" .
    have last: "slot - 1 - max 0 (maxDeep - 1) = slot - max 0 maxDeep" using False by simp
    have "getPreviousNotMissedBlockHeader env slot maxDeep lg = (Inl e', lg @ (?r0 @ reqs'))"
      using rec ih(1) by simp
    then show ?thesis using ih(2) ih(3) probes unfolding last by blast
  qed
qed


text \<open>
  Claim C8, as stated, at an API that answers 404 for every slot: with \<^verbatim>\<open>maxDeep = 2\<close>
  both searches fail, and the error they fail with is the 404 error of a header lookup,
  the very error that a single lookup of the last probed slot (42, respectively 38) throws.
  The code has no error of its own for an exhausted depth; a caller cannot tell the
  exhausted search from a header that is not found.
\<close>

theorem notMissedBlockHeader_search_rethrows_404_counterexample:
  "fst (getNextNotMissedBlockHeader env404 40 2 []) = Inl notFound
   \<and> fst (getBeaconBlockHeader env404 (Slot 42) 3 []) = Inl notFound
   \<and> fst (getPreviousNotMissedBlockHeader env404 40 2 []) = Inl notFound
   \<and> fst (getBeaconBlockHeader env404 (Slot 38) 3 []) = Inl notFound
   \<and> notFound = BeaconChainGeneralApiError ''Not Found'' (Some 404)
   \<and> httpCode notFound = Some 404"
  by (simp add: getBeaconBlockHeader_unfold apiGet_def env404_def notFound_def httpCode_def
      eval_nat_numeral)

text \<open>
  Claim C8, amended. Both searches are total: the definitions above are accepted with the
  measure \<open>nat maxDeep\<close>, which every recursive call decreases. The requests a search
  issues ask, after dropping immediate repetitions (the retries of one lookup), for the
  slots \<open>slot\<close>, \<open>slot + 1\<close>, ... (respectively \<open>slot\<close>, \<open>slot - 1\<close>, ...), one after the
  other: at least one and at most \<open>maxDeep\<close> slots beyond the starting slot. When the API
  answers 404 for each of these slots, the search has asked for all of them and fails, and
  the error it fails with is the 404 error caught for the last slot, \<open>slot + maxDeep\<close>
  (respectively \<open>slot - maxDeep\<close>), rethrown as it is: not an error of its own for the
  exhausted depth.
\<close>

theorem notMissedBlockHeader_search_bounded:
  "(\<exists>reqs m. snd (getNextNotMissedBlockHeader env slot maxDeep lg) = lg @ reqs
        \<and> 1 \<le> m \<and> m \<le> nat maxDeep + 1
        \<and> remdups_adj (map snd reqs) = map (\<lambda>i. Slot (slot + int i)) [0..<m])
   \<and> (\<exists>reqs m. snd (getPreviousNotMissedBlockHeader env slot maxDeep lg) = lg @ reqs
        \<and> 1 \<le> m \<and> m \<le> nat maxDeep + 1
        \<and> remdups_adj (map snd reqs) = map (\<lambda>i. Slot (slot - int i)) [0..<m])
   \<and> ((\<forall>t url i. 0 \<le> i \<and> i \<le> max 0 maxDeep \<longrightarrow>
           (\<exists>msg. beacon env t url (Slot (slot + i)) = Inl (BeaconChainGeneralApiError msg (Some 404))))
        \<longrightarrow> (\<exists>e t url reqs. getNextNotMissedBlockHeader env slot maxDeep lg = (Inl e, lg @ reqs)
              \<and> httpCode e = Some 404
              \<and> beacon env t url (Slot (slot + max 0 maxDeep)) = Inl e
              \<and> remdups_adj (map snd reqs) = map (\<lambda>i. Slot (slot + int i)) [0..<nat maxDeep + 1]))
   \<and> ((\<forall>t url i. 0 \<le> i \<and> i \<le> max 0 maxDeep \<longrightarrow>
           (\<exists>msg. beacon env t url (Slot (slot - i)) = Inl (BeaconChainGeneralApiError msg (Some 404))))
        \<longrightarrow> (\<exists>e t url reqs. getPreviousNotMissedBlockHeader env slot maxDeep lg = (Inl e, lg @ reqs)
              \<and> httpCode e = Some 404
              \<and> beacon env t url (Slot (slot - max 0 maxDeep)) = Inl e
              \<and> remdups_adj (map snd reqs) = map (\<lambda>i. Slot (slot - int i)) [0..<nat maxDeep + 1]))"
proof (intro conjI impI)
  show "\<exists>reqs m. snd (getNextNotMissedBlockHeader env slot maxDeep lg) = lg @ reqs
        \<and> 1 \<le> m \<and> m \<le> nat maxDeep + 1
        \<and> remdups_adj (map snd reqs) = map (\<lambda>i. Slot (slot + int i)) [0..<m]"
    by (rule getNextNotMissedBlockHeader_probes)
  show "\<exists>reqs m. snd (getPreviousNotMissedBlockHeader env slot maxDeep lg) = lg @ reqs
        \<and> 1 \<le> m \<and> m \<le> nat maxDeep + 1
        \<and> remdups_adj (map snd reqs) = map (\<lambda>i. Slot (slot - int i)) [0..<m]"
    by (rule getPreviousNotMissedBlockHeader_probes)
next
  assume "\<forall>t url i. 0 \<le> i \<and> i \<le> max 0 maxDeep \<longrightarrow>
           (\<exists>msg. beacon env t url (Slot (slot + i)) = Inl (BeaconChainGeneralApiError msg (Some 404)))"
  then show "\<exists>e t url reqs. getNextNotMissedBlockHeader env slot maxDeep lg = (Inl e, lg @ reqs)
              \<and> httpCode e = Some 404
              \<and> beacon env t url (Slot (slot + max 0 maxDeep)) = Inl e
              \<and> remdups_adj (map snd reqs) = map (\<lambda>i. Slot (slot + int i)) [0..<nat maxDeep + 1]"
    by (intro getNextNotMissedBlockHeader_all_missing) blast
next
  assume "\<forall>t url i. 0 \<le> i \<and> i \<le> max 0 maxDeep \<longrightarrow>
           (\<exists>msg. beacon env t url (Slot (slot - i)) = Inl (BeaconChainGeneralApiError msg (Some 404)))"
  then show "\<exists>e t url reqs. getPreviousNotMissedBlockHeader env slot maxDeep lg = (Inl e, lg @ reqs)
              \<and> httpCode e = Some 404
              \<and> beacon env t url (Slot (slot - max 0 maxDeep)) = Inl e
              \<and> remdups_adj (map snd reqs) = map (\<lambda>i. Slot (slot - int i)) [0..<nat maxDeep + 1]"
    by (intro getPreviousNotMissedBlockHeader_all_missing) blast
qed

theorem notMissedBlockHeader_search_witness:
  "getNextNotMissedBlockHeader env404 40 2 []
     = (Inl notFound,
        replicate 4 (''main'', Slot 40) @ replicate 4 (''main'', Slot 41)
          @ replicate 4 (''main'', Slot 42))
   \<and> getPreviousNotMissedBlockHeader env404 40 2 []
     = (Inl notFound,
        replicate 4 (''main'', Slot 40) @ replicate 4 (''main'', Slot 39)
          @ replicate 4 (''main'', Slot 38))
   \<and> httpCode notFound = Some 404
   \<and> beacon env404 0 ''main'' (Slot (40 + max 0 2)) = Inl notFound"
  using notMissedBlockHeader_search_bounded [of env404 40 2 "[]"]
  by (simp add: getBeaconBlockHeader_unfold apiGet_def env404_def notFound_def httpCode_def
      eval_nat_numeral)

subsection \<open>The missed-slot check\<close>

text \<open>
  The walk, by induction on the number of parents fetched: as long as the headers served
  lie above the slot, \<^verbatim>\<open>checkSlotIsMissed\<close> calls itself on the parent.
\<close>

lemma checkSlotIsMissed_walk:
  assumes "slotNumber' < slotNumber someNextBlock"
    and "\<And>i. i < n \<Longrightarrow> \<exists>h' lg'. ancestor env i someNextBlock lg = (Inr h', lg') \<and> slotNumber' < slotNumber h'"
    and "ancestor env n someNextBlock lg = (Inr h, lg')"
    and "slotNumber h \<le> slotNumber'"
  shows "checkSlotIsMissed env slotNumber' someNextBlock lg = Some (Inr (slotNumber h < slotNumber', h), lg')"
  using assms
proof (induction n arbitrary: someNextBlock lg)
  case 0
  then show ?case by simp
next
  case (Suc n)
  obtain r lg1 where gb: "getBeaconBlockHeader env (Root (parentRoot someNextBlock)) 3 lg = (r, lg1)"
    by (cases "getBeaconBlockHeader env (Root (parentRoot someNextBlock)) 3 lg")
  from Suc.prems(3) gb obtain bh where bh: "r = Inr bh" and anc: "ancestor env n bh lg1 = (Inr h, lg')"
    by (cases r) auto
  have unf: "checkSlotIsMissed env slotNumber' someNextBlock lg =
      (if slotNumber' = slotNumber bh then Some (Inr (False, bh), lg1)
       else if slotNumber' > slotNumber bh then Some (Inr (True, bh), lg1)
       else checkSlotIsMissed env slotNumber' bh lg1)"
    using Suc.prems(1) gb bh by (subst checkSlotIsMissed.simps) simp
  show ?case
  proof (cases n)
    case 0
    then have "bh = h" "lg1 = lg'" using anc by simp_all
    then show ?thesis using unf Suc.prems(4) by auto
  next
    case more: (Suc m)
    have above: "slotNumber' < slotNumber bh"
      using Suc.prems(2) [of 1] more gb bh by simp
    have steps: "\<exists>h' lg''. ancestor env i bh lg1 = (Inr h', lg'') \<and> slotNumber' < slotNumber h'"
      if "i < n" for i
      using Suc.prems(2) [of "Suc i"] that gb bh by simp
    have "checkSlotIsMissed env slotNumber' bh lg1 = Some (Inr (slotNumber h < slotNumber', h), lg')"
      using Suc.IH [OF above steps anc Suc.prems(4)] by simp
    then show ?thesis using unf above by simp
  qed
qed


text \<open>
  A fetch that fails during the walk ends it: the error of \<^verbatim>\<open>getBeaconBlockHeader\<close> is
  the error of \<^verbatim>\<open>checkSlotIsMissed\<close>.
\<close>

lemma checkSlotIsMissed_fetch_fails:
  assumes "\<And>i. i < n \<Longrightarrow>
             \<exists>h' lg'. ancestor env i someNextBlock lg = (Inr h', lg') \<and> slotNumber' < slotNumber h'"
    and "ancestor env n someNextBlock lg = (Inl e, lg')"
  shows "checkSlotIsMissed env slotNumber' someNextBlock lg = Some (Inl e, lg')"
  using assms
proof (induction n arbitrary: someNextBlock lg)
  case 0
  then show ?case by simp
next
  case (Suc n)
  have above: "slotNumber' < slotNumber someNextBlock"
    using Suc.prems(1) [of 0] by simp
  obtain r lg1 where gb: "getBeaconBlockHeader env (Root (parentRoot someNextBlock)) 3 lg = (r, lg1)"
    by (cases "getBeaconBlockHeader env (Root (parentRoot someNextBlock)) 3 lg")
  show ?case
  proof (cases r)
    case (Inl e')
    then have "e' = e" "lg1 = lg'" using Suc.prems(2) gb by simp_all
    then show ?thesis using above gb Inl by (subst checkSlotIsMissed.simps) simp
  next
    case (Inr bh)
    then have anc: "ancestor env n bh lg1 = (Inl e, lg')" using Suc.prems(2) gb by simp
    have n_pos: "0 < n" using anc by (cases n) simp_all
    have steps: "\<exists>h' lg''. ancestor env i bh lg1 = (Inr h', lg'') \<and> slotNumber' < slotNumber h'"
      if "i < n" for i
      using Suc.prems(1) [of "Suc i"] that gb Inr by simp
    have bh_above: "slotNumber' < slotNumber bh" using steps [OF n_pos] by simp
    have "checkSlotIsMissed env slotNumber' someNextBlock lg
        = checkSlotIsMissed env slotNumber' bh lg1"
      using above bh_above gb Inr by (subst checkSlotIsMissed.simps) simp
    then show ?thesis using Suc.IH [OF steps anc] by simp
  qed
qed

text \<open>
  Claim C2. \<^verbatim>\<open>checkSlotIsMissed(s, nextHeader)\<close>:
  \<^item> when \<open>nextHeader.slotNumber = s\<close>, it returns \<open>(false, nextHeader)\<close> and the request
    log is unchanged: no lookup was made;
  \<^item> when \<open>s > nextHeader.slotNumber\<close>, it throws the error with the message
    \<^verbatim>\<open>Next block is greater than probably missing block\<close> (the spec's
    \<^verbatim>\<open>InconsistentChain\<close>), again without a lookup;
  \<^item> otherwise it walks the parent chain: if the first \<open>n - 1\<close> ancestors are served
    and lie above \<open>s\<close>, and the \<open>n\<close>-th ancestor \<open>h\<close> is served and does not, then the
    result is \<open>(false, h)\<close> when \<open>h.slotNumber = s\<close> and \<open>(true, h)\<close> when
    \<open>h.slotNumber < s\<close>: \<open>h\<close> is the closest earlier header that is not missed.
\<close>

theorem checkSlotIsMissed_result:
  "(slotNumber someNextBlock = s \<longrightarrow>
      checkSlotIsMissed env s someNextBlock lg = Some (Inr (False, someNextBlock), lg))
   \<and> (slotNumber someNextBlock < s \<longrightarrow>
      checkSlotIsMissed env s someNextBlock lg
        = Some (Inl (Error ''Next block is greater than probably missing block''), lg))
   \<and> (s < slotNumber someNextBlock \<longrightarrow>
       (\<forall>i<n. \<exists>h' lg'. ancestor env i someNextBlock lg = (Inr h', lg') \<and> s < slotNumber h') \<longrightarrow>
       ancestor env n someNextBlock lg = (Inr h, lg') \<longrightarrow>
       slotNumber h \<le> s \<longrightarrow>
       checkSlotIsMissed env s someNextBlock lg = Some (Inr (slotNumber h < s, h), lg'))"
proof (intro conjI impI)
  assume "slotNumber someNextBlock = s"
  then show "checkSlotIsMissed env s someNextBlock lg = Some (Inr (False, someNextBlock), lg)"
    by (subst checkSlotIsMissed.simps) simp
next
  assume "slotNumber someNextBlock < s"
  then show "checkSlotIsMissed env s someNextBlock lg
        = Some (Inl (Error ''Next block is greater than probably missing block''), lg)"
    by (subst checkSlotIsMissed.simps) simp
next
  assume "s < slotNumber someNextBlock"
    and "\<forall>i<n. \<exists>h' lg'. ancestor env i someNextBlock lg = (Inr h', lg') \<and> s < slotNumber h'"
    and "ancestor env n someNextBlock lg = (Inr h, lg')"
    and "slotNumber h \<le> s"
  then show "checkSlotIsMissed env s someNextBlock lg = Some (Inr (slotNumber h < s, h), lg')"
    by (intro checkSlotIsMissed_walk [where n = n]) auto
qed

theorem checkSlotIsMissed_witness:
  "checkSlotIsMissed envChain 42 header42 [] = Some (Inr (False, header42), [])
   \<and> checkSlotIsMissed envChain 43 header42 []
       = Some (Inl (Error ''Next block is greater than probably missing block''), [])
   \<and> ancestor envChain 1 header42 [] = (Inr header41, [(''main'', Root ''b41'')])
   \<and> ancestor envChain 2 header42 []
       = (Inr header39, [(''main'', Root ''b41''), (''main'', Root ''b39'')])
   \<and> checkSlotIsMissed envChain 40 header42 []
       = Some (Inr (True, header39), [(''main'', Root ''b41''), (''main'', Root ''b39'')])
   \<and> checkSlotIsMissed envChain 41 header42 []
       = Some (Inr (False, header41), [(''main'', Root ''b41'')])"
  using checkSlotIsMissed_result [of header42 42 envChain "[]"]
        checkSlotIsMissed_result [of header42 43 envChain "[]"]
        checkSlotIsMissed_result [of header42 40 envChain "[]" 2 header39
            "[(''main'', Root ''b41''), (''main'', Root ''b39'')]"]
        checkSlotIsMissed_result [of header42 41 envChain "[]" 1 header41
            "[(''main'', Root ''b41'')]"]
  by (simp add: envChain_def header42_def header41_def header39_def
      getBeaconBlockHeader_unfold apiGet_def eval_nat_numeral All_less_Suc)

section \<open>Properties of the attestation check\<close>

text \<open>
  The inclusion distance does not decrease from one block to a later one, as long as no
  missed slot is listed twice: between the two blocks there are at most as many missed
  slots as slots.
\<close>

lemma missedSlotsOffset_split:
  assumes "duty_slot a < b" "b \<le> b'"
  shows "missedSlotsOffset ms a b'
       = missedSlotsOffset ms a b + length (filter (\<lambda>m. b \<le> m \<and> m < b') ms)"
  using assms unfolding missedSlotsOffset_def
proof (induction ms)
  case Nil
  then show ?case by simp
next
  case (Cons m ms)
  then show ?case by auto
qed

lemma length_filter_interval:
  fixes ms :: "int list"
  assumes "distinct ms"
  shows "length (filter (\<lambda>m. b \<le> m \<and> m < b') ms) \<le> nat (b' - b)"
proof -
  have "distinct (filter (\<lambda>m. b \<le> m \<and> m < b') ms)" using assms by simp
  then have "length (filter (\<lambda>m. b \<le> m \<and> m < b') ms)
      = card (set (filter (\<lambda>m. b \<le> m \<and> m < b') ms))"
    by (rule distinct_card [symmetric])
  also have "\<dots> \<le> card {b..<b'}"
    by (intro card_mono) auto
  finally show ?thesis by simp
qed

lemma inclusion_distance_mono:
  assumes "distinct ms" "duty_slot a < b" "b \<le> b'"
  shows "b - duty_slot a - int (missedSlotsOffset ms a b)
       \<le> b' - duty_slot a - int (missedSlotsOffset ms a b')"
proof -
  have "int (length (filter (\<lambda>m. b \<le> m \<and> m < b') ms)) \<le> b' - b"
    using length_filter_interval [OF assms(1), of b b'] assms(3) by linarith
  moreover have "int (missedSlotsOffset ms a b')
      = int (missedSlotsOffset ms a b) + int (length (filter (\<lambda>m. b \<le> m \<and> m < b') ms))"
    using missedSlotsOffset_split [OF assms(2,3), of ms] by simp
  ultimately show ?thesis by linarith
qed

lemma marksValidator_update [simp]:
  "marksValidator (a\<lparr>attested := x\<rparr>) atts = marksValidator a atts"
  "marksValidator (a\<lparr>in_block := y\<rparr>) atts = marksValidator a atts"
  by (simp_all add: marksValidator_def committeeAttestationInfo_def split: option.splits)

lemma missedSlotsOffset_update [simp]:
  "missedSlotsOffset ms (a\<lparr>attested := x\<rparr>) b = missedSlotsOffset ms a b"
  "missedSlotsOffset ms (a\<lparr>in_block := y\<rparr>) b = missedSlotsOffset ms a b"
  by (simp_all add: missedSlotsOffset_def)

text \<open>One step of the loop, by the three ways it can take.\<close>

lemma searchBlocks_skip:
  "block \<le> duty_slot a \<Longrightarrow>
   searchBlocks d ms ((block, atts) # rest) a = searchBlocks d ms rest a"
  by simp

lemma searchBlocks_found:
  assumes "duty_slot a < block" "\<not> attested a" "marksValidator a atts"
  shows "attested (searchBlocks d ms ((block, atts) # rest) a)
       = (block - duty_slot a - int (missedSlotsOffset ms a block) \<le> d)"
  using assms by (auto simp: marksValidator_def Let_def split: option.splits)

lemma searchBlocks_next:
  assumes "duty_slot a < block" "\<not> attested a" "\<not> marksValidator a atts"
  shows "\<exists>a'. searchBlocks d ms ((block, atts) # rest) a = searchBlocks d ms rest a'
           \<and> \<not> attested a' \<and> duty_slot a' = duty_slot a
           \<and> (\<forall>atts'. marksValidator a' atts' = marksValidator a atts')
           \<and> (\<forall>b. missedSlotsOffset ms a' b = missedSlotsOffset ms a b)"
proof (cases "committeeAttestationInfo a atts")
  case None
  then show ?thesis using assms by (intro exI [of _ a]) simp
next
  case (Some info)
  then have nb: "\<not> bitAt (bits info) (validator_committee_index a)"
    using assms(3) by (simp add: marksValidator_def)
  show ?thesis using assms(1) Some nb
    by (intro exI [of _ "a\<lparr>attested := bitAt (bits info) (validator_committee_index a),
                            in_block := Some block\<rparr>"])
       simp
qed

text \<open>
  The loop stops at the first block above the duty's slot that marks the validator, and
  the inclusion distance of that block decides. With the blocks in ascending order, no
  later block has a smaller distance.
\<close>

lemma searchBlocks_attested_iff:
  assumes "sorted_wrt (<) (map fst bs)" "distinct ms" "\<not> attested a"
  shows "attested (searchBlocks d ms bs a) \<longleftrightarrow>
     (\<exists>(block, atts) \<in> set bs. duty_slot a < block \<and> marksValidator a atts
        \<and> block - duty_slot a - int (missedSlotsOffset ms a block) \<le> d)"
  using assms
proof (induction bs arbitrary: a)
  case Nil
  then show ?case by simp
next
  case (Cons entry bs)
  obtain block atts where entry: "entry = (block, atts)" by (cases entry)
  have sorted: "sorted_wrt (<) (map fst bs)" and later: "\<forall>(b', atts') \<in> set bs. block < b'"
    using Cons.prems(1) entry by auto
  show ?case
  proof (cases "duty_slot a < block")
    case False
    then have "searchBlocks d ms (entry # bs) a = searchBlocks d ms bs a"
      using entry by simp
    then show ?thesis
      using Cons.IH [OF sorted Cons.prems(2,3)] False entry by simp
  next
    case above: True
    show ?thesis
    proof (cases "marksValidator a atts")
      case True
      have res: "attested (searchBlocks d ms (entry # bs) a)
          = (block - duty_slot a - int (missedSlotsOffset ms a block) \<le> d)"
        unfolding entry by (rule searchBlocks_found [OF above Cons.prems(3) True])
      have "block - duty_slot a - int (missedSlotsOffset ms a block) \<le> d"
        if "(b', atts') \<in> set bs" "b' - duty_slot a - int (missedSlotsOffset ms a b') \<le> d"
        for b' atts'
      proof -
        have "block \<le> b'" using later that(1) by auto
        from inclusion_distance_mono [OF Cons.prems(2) above this] that(2)
        show ?thesis by linarith
      qed
      then show ?thesis using res True above entry by auto
    next
      case False
      obtain a' where a': "searchBlocks d ms ((block, atts) # bs) a = searchBlocks d ms bs a'"
        "\<not> attested a'" "duty_slot a' = duty_slot a"
        "\<forall>atts'. marksValidator a' atts' = marksValidator a atts'"
        "\<forall>b. missedSlotsOffset ms a' b = missedSlotsOffset ms a b"
        using searchBlocks_next [OF above Cons.prems(3) False] by blast
      show ?thesis
        using Cons.IH [OF sorted Cons.prems(2) a'(2)] a' False entry by simp
    qed
  qed
qed

lemma searchBlocks_filter:
  "searchBlocks d ms (filter (\<lambda>(block, atts). duty_slot a < block) bs) a = searchBlocks d ms bs a"
proof (induction bs arbitrary: a)
  case Nil
  then show ?case by simp
next
  case (Cons entry bs)
  obtain block atts where entry: "entry = (block, atts)" by (cases entry)
  show ?case
  proof (cases "duty_slot a < block")
    case False
    then show ?thesis using Cons.IH [of a] entry by simp
  next
    case True
    have keep: "filter (\<lambda>(block, atts). duty_slot (a\<lparr>attested := x, in_block := y\<rparr>) < block) bs
        = filter (\<lambda>(block, atts). duty_slot a < block) bs" for x y
      by simp
    show ?thesis
      using True entry Cons.IH [of a]
        Cons.IH [of "a\<lparr>attested := x, in_block := y\<rparr>" for x y]
      by (auto simp: Let_def split: option.splits)
  qed
qed


lemma writeAttestationsLoop_rows:
  assumes "0 < chunkSize cfg" "\<And>rows. insertChunk cfg rows = None"
  shows "writeAttestationsLoop cfg r duties tbl = Some (Inr (), tbl @ map (checkDuty cfg r) duties)"
proof (induction duties arbitrary: tbl rule: length_induct)
  case (1 duties)
  show ?case
  proof (cases "duties = []")
    case True
    then show ?thesis by (subst writeAttestationsLoop.simps) simp
  next
    case False
    then have "length (drop (chunkSize cfg) duties) < length duties"
      using assms(1) by simp
    then have "writeAttestationsLoop cfg r (drop (chunkSize cfg) duties)
          (tbl @ map (checkDuty cfg r) (take (chunkSize cfg) duties))
        = Some (Inr (), (tbl @ map (checkDuty cfg r) (take (chunkSize cfg) duties))
            @ map (checkDuty cfg r) (drop (chunkSize cfg) duties))"
      using "1.IH" by blast
    moreover have "map (checkDuty cfg r) (take (chunkSize cfg) duties)
        @ map (checkDuty cfg r) (drop (chunkSize cfg) duties) = map (checkDuty cfg r) duties"
      by (simp add: map_append [symmetric] del: map_append)
    ultimately show ?thesis using False assms(2)
      by (subst writeAttestationsLoop.simps) (simp add: Let_def)
  qed
qed

text \<open>
  Claim C1, evaluated at a block with two attestations of the duty's slot and committee.
  Block 11 lies above the attestation slot 10; it contains an attestation of that slot and
  committee whose bitfield marks the validator's committee position; no slot is missed and
  the distance 1 is within the limit 2. By the claim, and by the loop's own comments (it
  looks for the nearest block that includes the validator's attestation), the duty is
  attested. The row records attested = false: \<^verbatim>\<open>find\<close> returns the first attestation
  of the committee, which does not mark the validator, and the second is never read.
\<close>

theorem writeAttestations_misses_second_aggregate:
  "writeAttestations cfgDelay2 resultTwoAggregates []
     = Some (Inr (), [duty10\<lparr>attested := False, in_block := Some 11\<rparr>])
   \<and> attested (checkDuty cfgDelay2 resultTwoAggregates duty10) = False
   \<and> (11, [aggregateWithout, aggregateWith]) \<in> set (blocksAttestations resultTwoAggregates)
   \<and> duty_slot duty10 < 11
   \<and> aggregateWith \<in> set [aggregateWithout, aggregateWith]
   \<and> att_slot aggregateWith = duty_slot duty10
   \<and> att_committee_index aggregateWith = committee_index duty10
   \<and> bitAt (bits aggregateWith) (validator_committee_index duty10)
   \<and> 11 - duty_slot duty10 - int (missedSlotsOffset (allMissedSlots resultTwoAggregates) duty10 11)
        \<le> ATTESTATION_MAX_INCLUSION_IN_BLOCK_DELAY cfgDelay2"
proof -
  have "writeAttestations cfgDelay2 resultTwoAggregates []
      = Some (Inr (), [] @ map (checkDuty cfgDelay2 resultTwoAggregates)
                            (attestersDutyInfo resultTwoAggregates))"
    unfolding writeAttestations_def
    by (rule writeAttestationsLoop_rows) (simp_all add: cfgDelay2_def)
  then show ?thesis
    by (simp add: checkDuty_def cfgDelay2_def resultTwoAggregates_def duty10_def
        aggregateWithout_def aggregateWith_def committeeAttestationInfo_def bitAt_def
        missedSlotsOffset_def)
qed

text \<open>
  What the loop computes when the candidate blocks come in ascending order of their slots
  (the order of \<^verbatim>\<open>Object.entries\<close> on slot numbers) and \<^verbatim>\<open>allMissedSlots\<close> lists
  no slot twice. The row of a duty with attestation slot \<open>A\<close> records attested = true if
  and only if some candidate block with slot \<open>B > A\<close> is such that the attestation that
  \<^verbatim>\<open>find\<close> returns for the duty's slot and committee index marks the validator's
  committee position, and \<open>B - A - k \<le> ATTESTATION_MAX_INCLUSION_IN_BLOCK_DELAY\<close>, where
  \<open>k\<close> counts the entries of \<^verbatim>\<open>allMissedSlots\<close> strictly between \<open>A\<close> and \<open>B\<close>. Blocks
  with slot \<open>\<le> A\<close> are never considered: removing them changes nothing. With a positive
  chunk size and inserts that succeed, \<^verbatim>\<open>writeAttestations\<close> appends exactly these
  rows, one per duty and in order.
\<close>

lemma checkDuty_attested_iff:
  assumes "sorted_wrt (<) (map fst (blocksAttestations r))"
    and "distinct (allMissedSlots r)"
  shows "(attested (checkDuty cfg r a) \<longleftrightarrow>
           (\<exists>(block, atts) \<in> set (blocksAttestations r).
              duty_slot a < block \<and> marksValidator a atts
              \<and> block - duty_slot a - int (missedSlotsOffset (allMissedSlots r) a block)
                  \<le> ATTESTATION_MAX_INCLUSION_IN_BLOCK_DELAY cfg))
       \<and> checkDuty cfg
            (r\<lparr>blocksAttestations :=
                 filter (\<lambda>(block, atts). duty_slot a < block) (blocksAttestations r)\<rparr>) a
          = checkDuty cfg r a
       \<and> (0 < chunkSize cfg \<longrightarrow> (\<forall>rows. insertChunk cfg rows = None) \<longrightarrow>
            writeAttestations cfg r tbl
              = Some (Inr (), tbl @ map (checkDuty cfg r) (attestersDutyInfo r)))"
proof (intro conjI impI)
  let ?a0 = "a\<lparr>attested := False, in_block := None\<rparr>"
  have "attested (checkDuty cfg r a) \<longleftrightarrow>
      (\<exists>(block, atts) \<in> set (blocksAttestations r).
          duty_slot ?a0 < block \<and> marksValidator ?a0 atts
          \<and> block - duty_slot ?a0 - int (missedSlotsOffset (allMissedSlots r) ?a0 block)
              \<le> ATTESTATION_MAX_INCLUSION_IN_BLOCK_DELAY cfg)"
    unfolding checkDuty_def by (rule searchBlocks_attested_iff [OF assms]) simp
  then show "attested (checkDuty cfg r a) \<longleftrightarrow>
      (\<exists>(block, atts) \<in> set (blocksAttestations r).
          duty_slot a < block \<and> marksValidator a atts
          \<and> block - duty_slot a - int (missedSlotsOffset (allMissedSlots r) a block)
              \<le> ATTESTATION_MAX_INCLUSION_IN_BLOCK_DELAY cfg)"
    by simp
next
  show "checkDuty cfg
          (r\<lparr>blocksAttestations :=
               filter (\<lambda>(block, atts). duty_slot a < block) (blocksAttestations r)\<rparr>) a
        = checkDuty cfg r a"
    using searchBlocks_filter [of "ATTESTATION_MAX_INCLUSION_IN_BLOCK_DELAY cfg" "allMissedSlots r"
        "a\<lparr>attested := False, in_block := None\<rparr>" "blocksAttestations r"]
    by (simp add: checkDuty_def)
next
  assume "0 < chunkSize cfg" "\<forall>rows. insertChunk cfg rows = None"
  then show "writeAttestations cfg r tbl
      = Some (Inr (), tbl @ map (checkDuty cfg r) (attestersDutyInfo r))"
    unfolding writeAttestations_def by (intro writeAttestationsLoop_rows) simp_all
qed

text \<open>
  The duty of slot 40 whose only candidate is block 42, with slot 41 missed and the limit
  2: the distance is \<open>42 - 40 - 1 = 1\<close> and the duty is attested.
\<close>

lemma checkDuty_attested_example:
  "sorted_wrt (<) (map fst (blocksAttestations resultMissed41))
   \<and> distinct (allMissedSlots resultMissed41)
   \<and> missedSlotsOffset (allMissedSlots resultMissed41) duty40 42 = 1
   \<and> attested (checkDuty cfgDelay2 resultMissed41 duty40)
   \<and> in_block (checkDuty cfgDelay2 resultMissed41 duty40) = Some 42
   \<and> writeAttestations cfgDelay2 resultMissed41 []
       = Some (Inr (), [duty40\<lparr>attested := True, in_block := Some 42\<rparr>])"
  using checkDuty_attested_iff [of resultMissed41 cfgDelay2 duty40 "[]"]
  by (simp add: checkDuty_def cfgDelay2_def resultMissed41_def duty40_def
      committeeAttestationInfo_def bitAt_def missedSlotsOffset_def marksValidator_def)

section \<open>Properties of the alert engine\<close>

subsection \<open>The send rules\<close>

lemma jsGreater_NaN_right [simp]: "jsGreater x NaN = False"
  by (cases x) simp_all

lemma CriticalNegativeDelta_sendRule_empty:
  "CriticalNegativeDelta_sendRule sent name now [] = False"
  by (simp add: CriticalNegativeDelta_sendRule_def)

lemma CriticalNegativeDelta_sendRule_default_interval:
  assumes "result \<noteq> []" and "now - prevSendTimestamp sent name > 6 * 60 * 60 * 1000"
  shows "CriticalNegativeDelta_sendRule sent name now result = True"
  using assms by (simp add: CriticalNegativeDelta_sendRule_def)

lemma CriticalMissedProposes_sendRule_empty:
  "CriticalMissedProposes_sendRule sent name now [] = False"
  by (simp add: CriticalMissedProposes_sendRule_def)

text \<open>
  Without a recorded alert both previous counts default to 0, their quotient is
  \<^verbatim>\<open>NaN\<close>, and no share compares greater: the rule for missed proposals cannot send
  its first alert, whatever the rule result and however much time has passed.
\<close>

lemma missedShareIncreased_no_record:
  "sent name = None \<Longrightarrow> missedShareIncreased sent name now result = False"
  by (induction result) (auto simp: prevField_def Let_def)

lemma CriticalMissedProposes_sendRule_no_record:
  "sent name = None \<Longrightarrow> CriticalMissedProposes_sendRule sent name now result = False"
  by (simp add: CriticalMissedProposes_sendRule_def missedShareIncreased_no_record)

text \<open>
  Claim C3, evaluated on the first cycle, when no alert has been recorded yet. The rule
  result is not empty and far more than six hours lie between \<^verbatim>\<open>Date.now()\<close> and the
  default previous timestamp 0, so the claim has \<^verbatim>\<open>sendRule\<close> return true.
  \<^verbatim>\<open>CriticalMissedProposes.sendRule\<close> returns false; \<^verbatim>\<open>CriticalNegativeDelta.sendRule\<close>,
  which tests the default interval before it looks at the operators, returns true.
\<close>

theorem CriticalMissedProposes_sendRule_first_cycle:
  "missedProposesResult \<noteq> []
   \<and> 1700000000000 - prevSendTimestamp Map.empty ''CriticalMissedProposes'' > 6 * 60 * 60 * 1000
   \<and> CriticalMissedProposes_sendRule Map.empty ''CriticalMissedProposes'' 1700000000000
        missedProposesResult = False
   \<and> CriticalNegativeDelta_sendRule Map.empty ''CriticalNegativeDelta'' 1700000000000
        negativeDeltaResult = True"
  by (simp add: CriticalMissedProposes_sendRule_def CriticalNegativeDelta_sendRule_def
      missedProposesResult_def negativeDeltaResult_def prevSendTimestamp_def prevField_def
      toNumber_def)

subsection \<open>The evaluation cycle\<close>

text \<open>
  The alert sink decides nothing but which deliveries are logged as failed: two runs of
  the loop under different sinks evaluate, post and record the same.
\<close>

lemma sendLoop_delivery_independent:
  assumes "sameButDeliveries st st'"
  shows "fst (sendLoop (svc\<lparr>delivery := d\<rparr>) epoch als count st)
           = fst (sendLoop (svc\<lparr>delivery := d'\<rparr>) epoch als count st')
       \<and> sameButDeliveries (snd (sendLoop (svc\<lparr>delivery := d\<rparr>) epoch als count st))
                            (snd (sendLoop (svc\<lparr>delivery := d'\<rparr>) epoch als count st'))"
  using assms
proof (induction als arbitrary: count st st')
  case Nil
  then show ?case by simp
next
  case (Cons al als)
  let ?st1 = "st\<lparr>evaluated := evaluated st @ [alertname al]\<rparr>"
  let ?st1' = "st'\<lparr>evaluated := evaluated st' @ [alertname al]\<rparr>"
  have same: "sentAlerts st = sentAlerts st'" using Cons.prems by (simp add: sameButDeliveries_def)
  have s1: "sameButDeliveries ?st1 ?st1'" using Cons.prems by (simp add: sameButDeliveries_def)
  show ?case
  proof (cases "toSend al epoch (sentAlerts st)")
    case (Inl e)
    then show ?thesis using same s1 by (simp add: Let_def)
  next
    case (Inr r)
    show ?thesis
    proof (cases r)
      case None
      then show ?thesis using Inr same Cons.IH [OF s1] by (simp add: Let_def)
    next
      case (Some prepared)
      let ?st3 = "(fire (svc\<lparr>delivery := d\<rparr>) (body prepared) ?st1)
          \<lparr>sentAlerts := (sentAlerts (fire (svc\<lparr>delivery := d\<rparr>) (body prepared) ?st1))
                           (alertname al \<mapsto> prepared)\<rparr>"
      let ?st3' = "(fire (svc\<lparr>delivery := d'\<rparr>) (body prepared) ?st1')
          \<lparr>sentAlerts := (sentAlerts (fire (svc\<lparr>delivery := d'\<rparr>) (body prepared) ?st1'))
                           (alertname al \<mapsto> prepared)\<rparr>"
      have "sameButDeliveries ?st3 ?st3'"
        using s1 by (simp add: sameButDeliveries_def fire_def)
      from Cons.IH [OF this]
      show ?thesis using Inr Some same by (simp add: Let_def)
    qed
  qed
qed

lemma sameButDeliveries_refl: "sameButDeliveries st st"
  by (simp add: sameButDeliveries_def)

lemma send_delivery_independent:
  "fst (send (svc\<lparr>delivery := d\<rparr>) epoch st) = fst (send (svc\<lparr>delivery := d'\<rparr>) epoch st)
   \<and> sameButDeliveries (snd (send (svc\<lparr>delivery := d\<rparr>) epoch st))
                        (snd (send (svc\<lparr>delivery := d'\<rparr>) epoch st))"
proof -
  obtain r st1 where a: "sendLoop (svc\<lparr>delivery := d\<rparr>) epoch (alerts svc) 0 st = (r, st1)"
    by (cases "sendLoop (svc\<lparr>delivery := d\<rparr>) epoch (alerts svc) 0 st")
  obtain r' st1' where b: "sendLoop (svc\<lparr>delivery := d'\<rparr>) epoch (alerts svc) 0 st = (r', st1')"
    by (cases "sendLoop (svc\<lparr>delivery := d'\<rparr>) epoch (alerts svc) 0 st")
  have "r = r'" "sameButDeliveries st1 st1'"
    using sendLoop_delivery_independent [OF sameButDeliveries_refl,
        where svc = svc and d = d and d' = d' and epoch = epoch and als = "alerts svc"
          and count = 0 and st = st] a b
    by simp_all
  then show ?thesis using a b
    by (cases r') (auto simp: send_def sameButDeliveries_def)
qed

lemma sendLoop_frame:
  "name \<notin> alertname ` set als \<Longrightarrow>
   sentAlerts (snd (sendLoop svc epoch als count st)) name = sentAlerts st name"
proof (induction als arbitrary: count st)
  case Nil
  then show ?case by simp
next
  case (Cons al als)
  then have ne: "alertname al \<noteq> name" and rest: "name \<notin> alertname ` set als" by auto
  show ?case
  proof (cases "toSend al epoch (sentAlerts st)")
    case (Inl e)
    then show ?thesis by (simp add: Let_def)
  next
    case (Inr r)
    then show ?thesis using ne Cons.IH [OF rest]
      by (cases r) (simp_all add: Let_def fire_def)
  qed
qed

lemma sendLoop_posted_mono:
  "set (posted st) \<subseteq> set (posted (snd (sendLoop svc epoch als count st)))"
proof (induction als arbitrary: count st)
  case Nil
  then show ?case by simp
next
  case (Cons al als)
  show ?case
  proof (cases "toSend al epoch (sentAlerts st)")
    case (Inl e)
    then show ?thesis by (simp add: Let_def)
  next
    case (Inr r)
    show ?thesis
    proof (cases r)
      case None
      then show ?thesis using Inr Cons.IH [of "st\<lparr>evaluated := evaluated st @ [alertname al]\<rparr>" count]
        by (simp add: Let_def)
    next
      case (Some prepared)
      let ?st3 = "(fire svc (body prepared) (st\<lparr>evaluated := evaluated st @ [alertname al]\<rparr>))
          \<lparr>sentAlerts := (sentAlerts (fire svc (body prepared)
               (st\<lparr>evaluated := evaluated st @ [alertname al]\<rparr>))) (alertname al \<mapsto> prepared)\<rparr>"
      have "set (posted st) \<subseteq> set (posted ?st3)" by (auto simp: fire_def)
      also have "\<dots> \<subseteq> set (posted (snd (sendLoop svc epoch als (count + 1) ?st3)))"
        by (rule Cons.IH)
      finally show ?thesis using Inr Some by (simp add: Let_def)
    qed
  qed
qed

lemma sendLoop_append:
  "sendLoop svc epoch (xs @ ys) count st =
     (case sendLoop svc epoch xs count st of
        (Inl e, st') \<Rightarrow> (Inl e, st')
      | (Inr count', st') \<Rightarrow> sendLoop svc epoch ys count' st')"
proof (induction xs arbitrary: count st)
  case Nil
  then show ?case by simp
next
  case (Cons al xs)
  show ?case
  proof (cases "toSend al epoch (sentAlerts st)")
    case (Inl e)
    then show ?thesis by (simp add: Let_def)
  next
    case (Inr r)
    then show ?thesis using Cons.IH
      by (cases r) (simp_all add: Let_def)
  qed
qed



lemma send_unsuppressed:
  assumes "slotTimeDiffWithNow svc \<le> 3600000" "baseUrl svc \<noteq> []"
  shows "sentAlerts (snd (send svc epoch st)) = sentAlerts (snd (sendLoop svc epoch (alerts svc) 0 st))"
    and "posted (snd (send svc epoch st)) = posted (snd (sendLoop svc epoch (alerts svc) 0 st))"
    and "evaluated (snd (send svc epoch st)) = evaluated (snd (sendLoop svc epoch (alerts svc) 0 st))"
    and "failedDeliveries (snd (send svc epoch st))
           = failedDeliveries (snd (sendLoop svc epoch (alerts svc) 0 st))"
  using assms
  by (auto simp: send_def split: prod.splits sum.splits)


lemma sendLoop_sends_at:
  assumes "sendLoop svc epoch pre 0 st = (Inr c, st1)"
    and "toSend al epoch (sentAlerts st1) = Inr (Some prepared)"
    and "alertname al \<notin> alertname ` set rest"
  shows "sentAlerts (snd (sendLoop svc epoch (pre @ al # rest) 0 st)) (alertname al) = Some prepared"
    and "body prepared \<in> set (posted (snd (sendLoop svc epoch (pre @ al # rest) 0 st)))"
proof -
  let ?st3 = "(fire svc (body prepared) (st1\<lparr>evaluated := evaluated st1 @ [alertname al]\<rparr>))
      \<lparr>sentAlerts := (sentAlerts (fire svc (body prepared)
           (st1\<lparr>evaluated := evaluated st1 @ [alertname al]\<rparr>))) (alertname al \<mapsto> prepared)\<rparr>"
  have eq: "sendLoop svc epoch (pre @ al # rest) 0 st = sendLoop svc epoch rest (c + 1) ?st3"
    using assms(1,2) by (simp add: sendLoop_append Let_def)
  show "sentAlerts (snd (sendLoop svc epoch (pre @ al # rest) 0 st)) (alertname al) = Some prepared"
    unfolding eq using sendLoop_frame [OF assms(3), of svc epoch "c + 1" ?st3] by simp
  have "body prepared \<in> set (posted ?st3)" by (simp add: fire_def)
  then show "body prepared \<in> set (posted (snd (sendLoop svc epoch (pre @ al # rest) 0 st)))"
    unfolding eq using sendLoop_posted_mono [of ?st3 svc epoch rest "c + 1"] by blast
qed

lemma sendLoop_skips_at:
  assumes "sendLoop svc epoch pre 0 st = (Inr c, st1)"
    and "toSend al epoch (sentAlerts st1) = Inr None"
    and "alertname al \<notin> alertname ` set rest"
  shows "sentAlerts (snd (sendLoop svc epoch (pre @ al # rest) 0 st)) (alertname al)
       = sentAlerts st1 (alertname al)"
proof -
  have "sendLoop svc epoch (pre @ al # rest) 0 st
      = sendLoop svc epoch rest c (st1\<lparr>evaluated := evaluated st1 @ [alertname al]\<rparr>)"
    using assms(1,2) by (simp add: sendLoop_append Let_def)
  then show ?thesis
    using sendLoop_frame [OF assms(3), of svc epoch c
        "st1\<lparr>evaluated := evaluated st1 @ [alertname al]\<rparr>"]
    by simp
qed


text \<open>
  Claim C4, as stated, at a delivery that fails: the alert sink rejects the request, the
  failure is logged, and the record of the alert name is overwritten all the same. It no
  longer holds its previous value.
\<close>

theorem send_records_failed_delivery_counterexample:
  "delivery (serviceWith False [alwaysSends]) (body (preparedAt 1700000000000)) = False
   \<and> sentAlerts stateWithOldRecord ''CriticalNegativeDelta'' = Some (preparedAt 1600000000000)
   \<and> failedDeliveries (snd (send (serviceWith False [alwaysSends]) 0 stateWithOldRecord))
       = [body (preparedAt 1700000000000)]
   \<and> sentAlerts (snd (send (serviceWith False [alwaysSends]) 0 stateWithOldRecord))
        ''CriticalNegativeDelta'' = Some (preparedAt 1700000000000)
   \<and> preparedAt 1700000000000 \<noteq> preparedAt 1600000000000"
  by (simp add: send_def serviceWith_def alwaysSends_def stateWithOldRecord_def fire_def
      preparedAt_def)

text \<open>
  Claim C4, amended. The records \<^verbatim>\<open>sentAlerts\<close> after a cycle do not depend on the
  outcome of any delivery. When a rule decides to send, in a cycle that is not suppressed
  and in which no rule before it threw, its request is posted and
  \<^verbatim>\<open>sentAlerts[alertname]\<close> is overwritten with the prepared alert (rule result,
  timestamp and body), whether the delivery then succeeds or fails. When the rule
  decides not to send, its record stays as it was. (Both for an alert name that no later
  alert of the list carries.)
\<close>

theorem send_records_alert_whatever_delivery:
  "sentAlerts (snd (send (svc\<lparr>delivery := d\<rparr>) epoch st))
     = sentAlerts (snd (send (svc\<lparr>delivery := d'\<rparr>) epoch st))
   \<and> (slotTimeDiffWithNow svc \<le> 3600000 \<longrightarrow> baseUrl svc \<noteq> [] \<longrightarrow>
       alerts svc = pre @ al # rest \<longrightarrow> sendLoop svc epoch pre 0 st = (Inr c, st1) \<longrightarrow>
       alertname al \<notin> alertname ` set rest \<longrightarrow>
         (\<forall>prepared. toSend al epoch (sentAlerts st1) = Inr (Some prepared) \<longrightarrow>
            sentAlerts (snd (send svc epoch st)) (alertname al) = Some prepared
            \<and> body prepared \<in> set (posted (snd (send svc epoch st))))
       \<and> (toSend al epoch (sentAlerts st1) = Inr None \<longrightarrow>
            sentAlerts (snd (send svc epoch st)) (alertname al) = sentAlerts st1 (alertname al)))"
proof (intro conjI impI allI)
  show "sentAlerts (snd (send (svc\<lparr>delivery := d\<rparr>) epoch st))
      = sentAlerts (snd (send (svc\<lparr>delivery := d'\<rparr>) epoch st))"
    using send_delivery_independent [where svc = svc and d = d and d' = d' and epoch = epoch and st = st] by (simp add: sameButDeliveries_def)
next
  fix prepared
  assume "slotTimeDiffWithNow svc \<le> 3600000" "baseUrl svc \<noteq> []" "alerts svc = pre @ al # rest"
    "sendLoop svc epoch pre 0 st = (Inr c, st1)" "alertname al \<notin> alertname ` set rest"
    "toSend al epoch (sentAlerts st1) = Inr (Some prepared)"
  then show "sentAlerts (snd (send svc epoch st)) (alertname al) = Some prepared"
    and "body prepared \<in> set (posted (snd (send svc epoch st)))"
    using sendLoop_sends_at [of svc epoch pre st c st1 al prepared rest]
    by (simp_all add: send_unsuppressed)
next
  assume "slotTimeDiffWithNow svc \<le> 3600000" "baseUrl svc \<noteq> []" "alerts svc = pre @ al # rest"
    "sendLoop svc epoch pre 0 st = (Inr c, st1)" "alertname al \<notin> alertname ` set rest"
    "toSend al epoch (sentAlerts st1) = Inr None"
  then show "sentAlerts (snd (send svc epoch st)) (alertname al) = sentAlerts st1 (alertname al)"
    using sendLoop_skips_at [of svc epoch pre st c st1 al rest]
    by (simp add: send_unsuppressed)
qed

theorem send_records_alert_witness:
  "slotTimeDiffWithNow (serviceWith True [alwaysSends]) \<le> 3600000
   \<and> baseUrl (serviceWith True [alwaysSends]) \<noteq> []
   \<and> alerts (serviceWith True [alwaysSends]) = [] @ alwaysSends # []
   \<and> sendLoop (serviceWith True [alwaysSends]) 0 [] 0 stateWithOldRecord = (Inr 0, stateWithOldRecord)
   \<and> toSend alwaysSends 0 (sentAlerts stateWithOldRecord) = Inr (Some (preparedAt 1700000000000))
   \<and> sentAlerts (snd (send (serviceWith True [alwaysSends]) 0 stateWithOldRecord))
        (alertname alwaysSends) = Some (preparedAt 1700000000000)
   \<and> body (preparedAt 1700000000000)
        \<in> set (posted (snd (send (serviceWith True [alwaysSends]) 0 stateWithOldRecord)))
   \<and> sentAlerts (snd (send (serviceWith True [alwaysSends]\<lparr>delivery := (\<lambda>b. False)\<rparr>) 0 stateWithOldRecord))
       = sentAlerts (snd (send (serviceWith True [alwaysSends]\<lparr>delivery := (\<lambda>b. True)\<rparr>) 0 stateWithOldRecord))"
  using send_records_alert_whatever_delivery
    [where svc = "serviceWith True [alwaysSends]" and d = "\<lambda>b. False" and d' = "\<lambda>b. True"
       and epoch = 0 and st = stateWithOldRecord and pre = "[]" and al = alwaysSends
       and rest = "[]" and c = 0 and ?st1.0 = stateWithOldRecord]
  by (simp add: serviceWith_def alwaysSends_def)




section \<open>The client on a chain with a missed slot\<close>

text \<open>
  On the chain in which slot 40 was missed, asking for slot 40 yields the header of slot
  39 and the flag that the slot was missed: the lookup of slot 40 fails with a 404, the
  forward search asks for slot 40 again and finds slot 41, and the check walks from there
  to the parent, the header of slot 39.
\<close>

lemma getNext_envChain_40:
  "getNextNotMissedBlockHeader envChain 40 32 lg
     = (Inr header41, lg @ replicate 4 (''main'', Slot 40) @ [(''main'', Slot 41)])"
  by (simp add: getBeaconBlockHeader_unfold apiGet_def envChain_def notFound_def httpCode_def
      eval_nat_numeral)

lemma missed_slot_resolves_to_previous_header:
  "getBeaconBlockHeaderOrPreviousIfMissed envChain 40 []
     = Some (Inr (header39, True),
         replicate 8 (''main'', Slot 40) @ [(''main'', Slot 41), (''main'', Root ''b39'')])"
proof -
  let ?lg = "replicate 8 (''main'', Slot 40) @ [(''main'', Slot 41)]"
  have first: "getBeaconBlockHeader envChain (Slot 40) 3 []
      = (Inl notFound, replicate 4 (''main'', Slot 40))"
    by (simp add: getBeaconBlockHeader_unfold apiGet_def envChain_def notFound_def httpCode_def
        eval_nat_numeral)
  have nxt: "getNextNotMissedBlockHeader envChain 40 32 (replicate 4 (''main'', Slot 40))
      = (Inr header41, ?lg)"
    unfolding getNext_envChain_40 by (simp add: eval_nat_numeral)
  have anc: "ancestor envChain 1 header41 ?lg = (Inr header39, ?lg @ [(''main'', Root ''b39'')])"
    by (simp add: getBeaconBlockHeader_unfold apiGet_def envChain_def header41_def header39_def
        eval_nat_numeral)
  have "checkSlotIsMissed envChain 40 header41 ?lg
      = Some (Inr (slotNumber header39 < 40, header39), ?lg @ [(''main'', Root ''b39'')])"
    by (rule checkSlotIsMissed_walk [where n = 1, OF _ _ anc])
       (simp_all add: header41_def header39_def)
  then have chk: "checkSlotIsMissed envChain 40 header41 ?lg
      = Some (Inr (True, header39), ?lg @ [(''main'', Root ''b39'')])"
    by (simp add: header39_def)
  show ?thesis
    unfolding getBeaconBlockHeaderOrPreviousIfMissed_def first
    by (simp add: nxt chk notFound_def httpCode_def del: getNextNotMissedBlockHeader.simps)
qed

end
